theory Spec2Isabelle
  imports Complex_Main "HOL-Library.Word"
begin

section \<open>Python values used by the service\<close>

text \<open>
  A Python \<open>str\<close> is a sequence of Unicode code points, and \<open>len\<close>, \<open>rfind\<close> and slicing
  count code points; a \<open>bytes\<close> object is a sequence of octets.  \<open>S\<close> reads an ASCII
  literal of the source as a \<open>str\<close>.
\<close>

type_synonym pystr = "nat list"

type_synonym bytes = "8 word list"

definition S :: "string \<Rightarrow> pystr" where
  "S cs = map of_char cs"

text \<open>\<open>s.rfind(c)\<close> for a one-character \<open>c\<close>: the highest index of \<open>c\<close> in \<open>s\<close>, or \<open>-1\<close>.\<close>

definition rfind :: "pystr \<Rightarrow> nat \<Rightarrow> int" where
  "rfind s c =
     (if c \<in> set s
      then int (length s) - 1 - int (length (takeWhile (\<lambda>x. x \<noteq> c) (rev s)))
      else - 1)"

text \<open>The slice \<open>s[i:]\<close>: a negative \<open>i\<close> counts from the end and is clipped at the start.\<close>

definition slice_from :: "'a list \<Rightarrow> int \<Rightarrow> 'a list" where
  "slice_from s i = (if i < 0 then drop (nat (int (length s) + i)) s else drop (nat i) s)"

text \<open>\<open>s.rsplit(c, 1)\<close>: split once, at the last \<open>c\<close>; without a \<open>c\<close> the list is \<open>[s]\<close>.\<close>

definition rsplit_once :: "pystr \<Rightarrow> nat \<Rightarrow> pystr list" where
  "rsplit_once s c =
     (if c \<in> set s
      then [take (nat (rfind s c)) s, drop (nat (rfind s c) + 1) s]
      else [s])"

text \<open>\<open>sep.join(xs)\<close>.\<close>

fun join :: "pystr \<Rightarrow> pystr list \<Rightarrow> pystr" where
  "join sep [] = []"
| "join sep [x] = x"
| "join sep (x # y # ys) = x @ sep @ join sep (y # ys)"

text \<open>\<open>str(i)\<close> of an \<open>int\<close>: decimal digits, with a leading minus sign when negative.\<close>

fun digits :: "nat \<Rightarrow> pystr" where
  "digits n = (if n < 10 then [48 + n] else digits (n div 10) @ [48 + n mod 10])"

definition str_int :: "int \<Rightarrow> pystr" where
  "str_int i = (if i < 0 then 45 # digits (nat (- i)) else digits (nat i))"

text \<open>
  \<open>str.lower\<close> on the code points the statements below use: the ASCII letters, and
  U+0130 (LATIN CAPITAL LETTER I WITH DOT ABOVE), the one code point whose lower case is
  two code points (U+0069, U+0307); every other code point is kept, which is what
  \<open>str.lower\<close> does to digits, punctuation and lower-case letters.  Every general statement
  about a file name is about an arbitrary lower-casing function; this one is used at
  concrete file names made of such code points, and at the ASCII name of a header.
\<close>

definition lower_cp :: "nat \<Rightarrow> pystr" where
  "lower_cp c =
     (if 65 \<le> c \<and> c \<le> 90 then [c + 32]
      else if c = 304 then [105, 775]
      else [c])"

definition py_lower :: "pystr \<Rightarrow> pystr" where
  "py_lower s = concat (map lower_cp s)"

text \<open>
  \<open>s.encode("latin-1")\<close>, with the default error handling: one byte per code point below
  256.  Otherwise \<open>UnicodeEncodeError\<close> is raised for the first run of code points from 256
  on, \<open>[start, stop)\<close>; \<open>unicode_encode_error_str\<close> is \<open>str(e)\<close> of that exception, which
  names the code point when the run has one member (a backslash, then \<open>x\<close>, \<open>u\<close> or \<open>U\<close>
  and 2, 4 or 8 hexadecimal digits) and the positions of its first and last member
  otherwise.  The code point 39 is the apostrophe and 92 the backslash.
\<close>

definition hex_digit :: "nat \<Rightarrow> nat" where
  "hex_digit d = (if d < 10 then 48 + d else 87 + d)"

fun hex :: "nat \<Rightarrow> pystr" where
  "hex n = (if n < 16 then [hex_digit n] else hex (n div 16) @ [hex_digit (n mod 16)])"

definition hex_padded :: "nat \<Rightarrow> nat \<Rightarrow> pystr" where
  "hex_padded w n = replicate (w - length (hex n)) 48 @ hex n"

definition unicode_encode_error_str ::
  "pystr \<Rightarrow> pystr \<Rightarrow> nat \<Rightarrow> nat \<Rightarrow> pystr \<Rightarrow> pystr" where
  "unicode_encode_error_str encoding object start stop reason =
     (if start < length object \<and> stop = start + 1
      then (let badchar = object ! start
            in [39] @ encoding @ [39] @ S '' codec can't encode character '' @ [39] @
               (if badchar \<le> 255 then [92, 120] @ hex_padded 2 badchar
                else if badchar \<le> 65535 then [92, 117] @ hex_padded 4 badchar
                else [92, 85] @ hex_padded 8 badchar) @
               [39] @ S '' in position '' @ str_int (int start) @ S '': '' @ reason)
      else [39] @ encoding @ [39] @ S '' codec can't encode characters in position '' @
           str_int (int start) @ S ''-'' @ str_int (int stop - 1) @ S '': '' @ reason)"

definition encode_latin1 :: "pystr \<Rightarrow> pystr + bytes" where
  "encode_latin1 s =
     (if list_all (\<lambda>c. c < 256) s then Inr (map of_nat s)
      else (let start = length (takeWhile (\<lambda>c. c < 256) s);
                stop = start + length (takeWhile (\<lambda>c. 256 \<le> c) (drop start s))
            in Inl (unicode_encode_error_str (S ''latin-1'') s start stop
                      (S ''ordinal not in range(256)''))))"

text \<open>\<open>s.startswith(p)\<close> and \<open>p in s\<close> on strings.\<close>

definition startswith :: "pystr \<Rightarrow> pystr \<Rightarrow> bool" where
  "startswith s p = (take (length p) s = p)"

definition contains :: "pystr \<Rightarrow> pystr \<Rightarrow> bool" where
  "contains s p = list_ex (\<lambda>i. take (length p) (drop i s) = p) [0..<Suc (length s)]"

subsection \<open>Floats\<close>

text \<open>
  A Python \<open>float\<close> is an IEEE 754 binary64 number.  A finite one is kept as a pair
  \<open>(m, e)\<close> of integers that stands for \<open>m * 2 ^ e\<close>; every operation computes the exact
  result and rounds it to 53 significant bits, ties to even.  The exponent is not
  bounded: the operations agree with binary64 as long as no result leaves the normal
  range (magnitudes from \<open>2 ^ -1022\<close> to just under \<open>2 ^ 1024\<close>), which image sizes and
  file lengths never do.
\<close>

type_synonym float64 = "int \<times> int"

definition fval :: "float64 \<Rightarrow> rat" where
  "fval f = (if 0 \<le> snd f then of_int (fst f) * 2 ^ nat (snd f)
             else of_int (fst f) / 2 ^ nat (- snd f))"

fun ilog2 :: "nat \<Rightarrow> nat" where
  "ilog2 n = (if n < 2 then 0 else Suc (ilog2 (n div 2)))"

text \<open>The integer nearest to \<open>p / q\<close>, a tie going to the even neighbour.\<close>

definition round_half_even :: "nat \<Rightarrow> nat \<Rightarrow> nat" where
  "round_half_even p q =
     (let d = p div q; r = p mod q
      in if 2 * r < q then d
         else if q < 2 * r then d + 1
         else if even d then d else d + 1)"

text \<open>
  \<open>round53 p q\<close> rounds the positive quotient \<open>p / q\<close>: with \<open>e\<close> the integer part of its
  binary logarithm, the mantissa is \<open>p / q\<close> in units of \<open>2 ^ (e - 52)\<close>, rounded.
\<close>

definition round53 :: "nat \<Rightarrow> nat \<Rightarrow> float64" where
  "round53 p q =
     (let k = int (ilog2 p) - int (ilog2 q);
          e = (if p * 2 ^ nat (- k) < q * 2 ^ nat k then k - 1 else k);
          t = e - 52
      in (int (round_half_even (p * 2 ^ nat (- t)) (q * 2 ^ nat t)), t))"

text \<open>The binary64 number nearest to \<open>a / b\<close>, for \<open>b \<noteq> 0\<close>.\<close>

definition binary64 :: "int \<Rightarrow> int \<Rightarrow> float64" where
  "binary64 a b =
     (if a = 0 then (0, 0)
      else (sgn a * sgn b * fst (round53 (nat \<bar>a\<bar>) (nat \<bar>b\<bar>)),
            snd (round53 (nat \<bar>a\<bar>) (nat \<bar>b\<bar>))))"

text \<open>\<open>a / b\<close> on two \<open>int\<close>s: the correctly rounded quotient, or ZeroDivisionError.\<close>

definition py_truediv :: "int \<Rightarrow> int \<Rightarrow> pystr + float64" where
  "py_truediv a b = (if b = 0 then Inl (S ''division by zero'') else Inr (binary64 a b))"

text \<open>\<open>i * f\<close> on an \<open>int\<close> and a \<open>float\<close>: the \<open>int\<close> is converted, then the product rounded.\<close>

definition float_of_int :: "int \<Rightarrow> float64" where
  "float_of_int i = binary64 i 1"

definition fmul :: "float64 \<Rightarrow> float64 \<Rightarrow> float64" where
  "fmul f g =
     binary64 (fst f * fst g * 2 ^ nat (snd f + snd g)) (2 ^ nat (- (snd f + snd g)))"

text \<open>\<open>int(f)\<close>: truncation towards zero.\<close>

definition int_of_float :: "float64 \<Rightarrow> int" where
  "int_of_float f =
     (if 0 \<le> snd f then fst f * 2 ^ nat (snd f)
      else sgn (fst f) * (\<bar>fst f\<bar> div 2 ^ nat (- snd f)))"

text \<open>
  The format specification \<open>:.2f\<close>: the decimal expansion of the exact value of the float,
  rounded to two places, ties to even.  \<open>hundredths f\<close> is that many hundredths.
\<close>

definition hundredths :: "float64 \<Rightarrow> nat" where
  "hundredths f =
     round_half_even (nat \<bar>fst f\<bar> * 100 * 2 ^ nat (snd f)) (2 ^ nat (- snd f))"

definition format_2f :: "float64 \<Rightarrow> pystr" where
  "format_2f f =
     (if fst f < 0 then [45] else []) @
     digits (hundredths f div 100) @ [46] @
     [48 + hundredths f mod 100 div 10, 48 + hundredths f mod 10]"

section \<open>Configuration (app/config.py)\<close>

record settings =
  HOST :: pystr
  PORT :: int
  MAX_FILE_SIZE_MB :: int
  MAX_FILE_SIZE_BYTES :: int
  MAX_IMAGE_WIDTH :: int
  API_TITLE :: pystr
  API_VERSION :: pystr
  ALLOWED_EXTENSIONS :: "pystr list"

text \<open>
  The class body of \<open>Settings\<close>, from the values the environment resolves to (each
  \<open>os.getenv\<close> with its default, the numeric ones through \<open>int\<close>).  \<open>ALLOWED_EXTENSIONS\<close>
  is the set \<open>{".jpg", ".jpeg", ".png"}\<close>; a Python set has no fixed iteration order, so
  the field lists the three members in the order the interpreter iterates them, which is
  the last argument.
\<close>

definition Settings ::
  "pystr \<Rightarrow> int \<Rightarrow> int \<Rightarrow> int \<Rightarrow> pystr \<Rightarrow> pystr \<Rightarrow> pystr list \<Rightarrow> settings" where
  "Settings host port max_file_size_mb max_image_width api_title api_version iteration_order =
     \<lparr>HOST = host,
      PORT = port,
      MAX_FILE_SIZE_MB = max_file_size_mb,
      MAX_FILE_SIZE_BYTES = max_file_size_mb * 1024 * 1024,
      MAX_IMAGE_WIDTH = max_image_width,
      API_TITLE = api_title,
      API_VERSION = api_version,
      ALLOWED_EXTENSIONS = iteration_order\<rparr>"

definition allowed_extensions :: "pystr set" where
  "allowed_extensions = {S ''.jpg'', S ''.jpeg'', S ''.png''}"

text \<open>The settings of an empty environment: every default of the class body.\<close>

definition default_settings :: settings where
  "default_settings =
     Settings (S ''0.0.0.0'') 8000 5 1024 (S ''Background Remover API'') (S ''1.0.0'')
       [S ''.jpg'', S ''.jpeg'', S ''.png'']"

section \<open>External collaborators\<close>

text \<open>
  A decoded bitmap, as far as the service reads it: its size and its pixel buffer.
\<close>

record image =
  width :: int
  height :: int
  pixels :: bytes

text \<open>
  The library calls of the service: \<open>str.lower\<close>, Pillow's \<open>Image.open\<close>, \<open>verify\<close>,
  \<open>resize\<close> (with the Lanczos filter) and \<open>save\<close> to a PNG buffer, and rembg's \<open>remove\<close>.
  A call that raises is \<open>Inl\<close> of the exception's description \<open>str(e)\<close>; what a library
  raises is an \<open>Exception\<close>.
\<close>

record ext =
  str_lower :: "pystr \<Rightarrow> pystr"
  Image_open :: "bytes \<Rightarrow> pystr + image"
  Image_verify :: "image \<Rightarrow> pystr + unit"
  Image_resize :: "image \<Rightarrow> int \<times> int \<Rightarrow> pystr + image"
  rembg_remove :: "image \<Rightarrow> pystr + image"
  Image_save_PNG :: "image \<Rightarrow> pystr + bytes"

section \<open>The service (app/services/bg\_service.py)\<close>

text \<open>
  \<open>validate_image\<close>, check by check.  The extension is the slice of the lower-cased file
  name that starts at the index \<open>rfind\<close> found in the file name as given.
\<close>

definition file_size_mb :: "bytes \<Rightarrow> float64" where
  "file_size_mb image_bytes = binary64 (int (length image_bytes)) (1024 * 1024)"

definition file_extension :: "ext \<Rightarrow> pystr \<Rightarrow> pystr" where
  "file_extension x filename = slice_from (str_lower x filename) (rfind filename 46)"

text \<open>
  The extension in the words of the specification, to compare \<open>file_extension\<close> with: the
  part of the file name from its last dot to the end, lower-cased; the empty string for
  a name without a dot.
\<close>

definition spec_extension :: "ext \<Rightarrow> pystr \<Rightarrow> pystr" where
  "spec_extension x filename =
     (if 46 \<in> set filename then str_lower x (slice_from filename (rfind filename 46))
      else [])"

definition too_large_message :: "settings \<Rightarrow> bytes \<Rightarrow> pystr" where
  "too_large_message st image_bytes =
     S ''File too large. Maximum size is '' @ str_int (MAX_FILE_SIZE_MB st) @
     S ''MB, got '' @ format_2f (file_size_mb image_bytes) @ S ''MB''"

definition invalid_type_message :: "settings \<Rightarrow> pystr" where
  "invalid_type_message st =
     S ''Invalid file type. Allowed types: '' @ join (S '', '') (ALLOWED_EXTENSIONS st)"

definition corrupted_message :: "pystr \<Rightarrow> pystr" where
  "corrupted_message e = S ''Invalid or corrupted image file: '' @ e"

definition validate_image :: "ext \<Rightarrow> settings \<Rightarrow> bytes \<Rightarrow> pystr \<Rightarrow> bool \<times> pystr" where
  "validate_image x st image_bytes filename =
     (if int (length image_bytes) > MAX_FILE_SIZE_BYTES st
      then (False, too_large_message st image_bytes)
      else if file_extension x filename \<notin> set (ALLOWED_EXTENSIONS st)
      then (False, invalid_type_message st)
      else (case Image_open x image_bytes of
              Inl e \<Rightarrow> (False, corrupted_message e)
            | Inr img \<Rightarrow>
                (case Image_verify x img of
                   Inl e \<Rightarrow> (False, corrupted_message e)
                 | Inr _ \<Rightarrow> (True, []))))"

text \<open>
  Step 2 of \<open>remove_background\<close>: the bitmap is resized when it is wider than
  \<open>MAX_IMAGE_WIDTH\<close>, to the height \<open>int(height * ratio)\<close> with the float
  \<open>ratio = MAX_IMAGE_WIDTH / width\<close>.
\<close>

definition new_height :: "settings \<Rightarrow> image \<Rightarrow> pystr + int" where
  "new_height st input_image =
     (case py_truediv (MAX_IMAGE_WIDTH st) (width input_image) of
        Inl e \<Rightarrow> Inl e
      | Inr ratio \<Rightarrow> Inr (int_of_float (fmul (float_of_int (height input_image)) ratio)))"

definition normalize :: "ext \<Rightarrow> settings \<Rightarrow> image \<Rightarrow> pystr + image" where
  "normalize x st input_image =
     (if width input_image > MAX_IMAGE_WIDTH st
      then (case new_height st input_image of
              Inl e \<Rightarrow> Inl e
            | Inr h \<Rightarrow> Image_resize x input_image (MAX_IMAGE_WIDTH st, h))
      else Inr input_image)"

definition remove_background :: "ext \<Rightarrow> settings \<Rightarrow> bytes \<Rightarrow> pystr + bytes" where
  "remove_background x st image_bytes =
     (case Image_open x image_bytes of
        Inl e \<Rightarrow> Inl e
      | Inr input_image \<Rightarrow>
          (case normalize x st input_image of
             Inl e \<Rightarrow> Inl e
           | Inr resized \<Rightarrow>
               (case rembg_remove x resized of
                  Inl e \<Rightarrow> Inl e
                | Inr output_image \<Rightarrow> Image_save_PNG x output_image)))"

section \<open>The routes (app/routers/remove\_bg.py, app/main.py)\<close>

record upload =
  content :: bytes
  filename :: pystr

text \<open>
  A response object of Starlette: its status, what its body iterator yields, its media
  type and its \<open>raw_headers\<close>, a list of pairs of byte strings.
\<close>

datatype response =
  Response (status_code: int) (body: bytes) (media_type: pystr)
    (raw_headers: "(bytes \<times> bytes) list")

text \<open>
  \<open>StreamingResponse(content, media_type=..., headers=...)\<close>, as the handler calls it:
  the status code is the default 200, and \<open>init_headers\<close> encodes each header, the name
  lower-cased, as latin-1, then appends \<open>content-type\<close> from the media type unless the
  headers given hold one (a streaming response has no \<open>body\<close> attribute, so no
  \<open>content-length\<close> is added).  An encoding that fails raises out of the constructor.
\<close>

fun encode_headers :: "(pystr \<times> pystr) list \<Rightarrow> pystr + (bytes \<times> bytes) list" where
  "encode_headers [] = Inr []"
| "encode_headers ((k, v) # hs) =
     (case encode_latin1 (py_lower k) of
        Inl e \<Rightarrow> Inl e
      | Inr kb \<Rightarrow>
          (case encode_latin1 v of
             Inl e \<Rightarrow> Inl e
           | Inr vb \<Rightarrow>
               (case encode_headers hs of
                  Inl e \<Rightarrow> Inl e
                | Inr raw \<Rightarrow> Inr ((kb, vb) # raw))))"

definition init_headers ::
  "(pystr \<times> pystr) list \<Rightarrow> pystr \<Rightarrow> pystr + (bytes \<times> bytes) list" where
  "init_headers hs mt =
     (case encode_headers hs of
        Inl e \<Rightarrow> Inl e
      | Inr raw \<Rightarrow>
          if map of_nat (S ''content-type'') \<in> set (map fst raw) then Inr raw
          else (let content_type =
                      (if startswith mt (S ''text/'') \<and>
                          \<not> contains (py_lower mt) (S ''charset='')
                       then mt @ S ''; charset=utf-8'' else mt)
                in case encode_latin1 content_type of
                     Inl e \<Rightarrow> Inl e
                   | Inr b \<Rightarrow> Inr (raw @ [(map of_nat (S ''content-type''), b)])))"

definition StreamingResponse ::
  "bytes \<Rightarrow> pystr \<Rightarrow> (pystr \<times> pystr) list \<Rightarrow> pystr + response" where
  "StreamingResponse b mt hs =
     (case init_headers hs mt of
        Inl e \<Rightarrow> Inl e
      | Inr raw \<Rightarrow> Inr (Response 200 b mt raw))"

datatype outcome =
  Returned response
| HTTPException int pystr

text \<open>
  The handler of \<open>POST /api/remove-bg\<close>.  Besides its outcome it yields the service
  methods it called, in order.  Its \<open>try\<close> block holds the two service calls and the
  construction of the response, so that what either \<open>remove_background\<close> or the
  constructor raises reaches \<open>except Exception\<close>.
\<close>

datatype service_call = Call_validate_image | Call_remove_background

definition content_disposition :: "pystr \<Rightarrow> pystr" where
  "content_disposition fname =
     S ''attachment; filename=no_bg_'' @ hd (rsplit_once fname 46) @ S ''.png''"

definition remove_background_route ::
  "ext \<Rightarrow> settings \<Rightarrow> upload \<Rightarrow> service_call list \<times> outcome" where
  "remove_background_route x st file =
     (let image_bytes = content file;
          (is_valid, error_message) = validate_image x st image_bytes (filename file)
      in if \<not> is_valid
         then ([Call_validate_image], HTTPException 400 error_message)
         else (case remove_background x st image_bytes of
                 Inl e \<Rightarrow>
                   ([Call_validate_image, Call_remove_background],
                    HTTPException 500 (S ''Error processing image: '' @ e))
               | Inr output_bytes \<Rightarrow>
                   (case StreamingResponse output_bytes (S ''image/png'')
                           [(S ''Content-Disposition'', content_disposition (filename file))] of
                      Inl e \<Rightarrow>
                        ([Call_validate_image, Call_remove_background],
                         HTTPException 500 (S ''Error processing image: '' @ e))
                    | Inr r \<Rightarrow>
                        ([Call_validate_image, Call_remove_background], Returned r))))"

text \<open>The JSON bodies of the two informational routes.\<close>

datatype json = JStr pystr | JDict "(pystr \<times> json) list"

fun dict_get :: "json \<Rightarrow> pystr \<Rightarrow> json option" where
  "dict_get (JDict kvs) k = map_of kvs k"
| "dict_get (JStr _) k = None"

definition health_check :: json where
  "health_check =
     JDict [(S ''status'', JStr (S ''healthy'')),
            (S ''message'', JStr (S ''Background Remover API is running'')),
            (S ''version'', JStr (S ''1.0.0''))]"

definition root :: "settings \<Rightarrow> json" where
  "root st =
     JDict [(S ''message'', JStr (S ''Welcome to Background Remover API'')),
            (S ''version'', JStr (API_VERSION st)),
            (S ''docs'', JStr (S ''/docs'')),
            (S ''health'', JStr (S ''/api/health'')),
            (S ''endpoints'',
               JDict [(S ''remove_background'', JStr (S ''POST /api/remove-bg''))])]"

section \<open>A stub set of collaborators\<close>

text \<open>
  Concrete collaborators, to run the service on concrete uploads: every non-empty upload
  decodes to a 2000 x 1000 bitmap that verifies, \<open>resize\<close> returns a bitmap of the size
  asked for, segmentation returns its input, and the encoder returns the pixel buffer.
  \<open>failing_segmentation\<close> is the same set with a segmentation that raises.
\<close>

definition stub_ext :: ext where
  "stub_ext =
     \<lparr>str_lower = py_lower,
      Image_open = (\<lambda>b. if b = [] then Inl (S ''cannot identify image file'')
                        else Inr \<lparr>width = 2000, height = 1000, pixels = b\<rparr>),
      Image_verify = (\<lambda>_. Inr ()),
      Image_resize = (\<lambda>img sz. Inr (img\<lparr>width := fst sz, height := snd sz\<rparr>)),
      rembg_remove = (\<lambda>img. Inr img),
      Image_save_PNG = (\<lambda>img. Inr (pixels img))\<rparr>"

definition failing_segmentation :: ext where
  "failing_segmentation = stub_ext\<lparr>rembg_remove := (\<lambda>_. Inl (S ''model failed''))\<rparr>"

section \<open>Evaluation setup\<close>

declare digits.simps [simp del]

declare ilog2.simps [simp del]

declare hex.simps [simp del]

section \<open>Facts about the string operations\<close>

lemma rfind_none: "c \<notin> set s \<Longrightarrow> rfind s c = - 1"
  by (simp add: rfind_def)

lemma rfind_last_occurrence:
  assumes "s = pre @ c # suf" and "c \<notin> set suf"
  shows "rfind s c = int (length pre)"
proof -
  have "\<And>y. y \<in> set (rev suf) \<Longrightarrow> y \<noteq> c" using assms(2) by auto
  then have "takeWhile (\<lambda>y. y \<noteq> c) (rev suf @ c # rev pre) = rev suf @ takeWhile (\<lambda>y. y \<noteq> c) (c # rev pre)"
    by (rule takeWhile_append2)
  then have "takeWhile (\<lambda>y. y \<noteq> c) (rev s) = rev suf" using assms(1) by simp
  then show ?thesis using assms(1) by (simp add: rfind_def)
qed

lemma rfind_split:
  assumes "c \<in> set s"
  shows "\<exists>pre suf. s = pre @ c # suf \<and> c \<notin> set suf \<and> rfind s c = int (length pre)"
proof -
  define t where "t = takeWhile (\<lambda>y. y \<noteq> c) (rev s)"
  define d where "d = dropWhile (\<lambda>y. y \<noteq> c) (rev s)"
  have td: "rev s = t @ d" by (simp add: t_def d_def)
  have "d \<noteq> []" using assms by (simp add: d_def dropWhile_eq_Nil_conv)
  moreover from this have "hd d = c"
    using hd_dropWhile[of "\<lambda>y. y \<noteq> c" "rev s"] by (simp add: d_def)
  ultimately have d: "d = c # tl d" by (cases d) simp_all
  have nt: "c \<notin> set t"
    using set_takeWhileD[of c "\<lambda>y. y \<noteq> c" "rev s"] by (auto simp: t_def)
  have "rev (rev s) = rev (t @ c # tl d)" using td d by simp
  then have s: "s = rev (tl d) @ c # rev t" by simp
  then have "rfind s c = int (length (rev (tl d)))"
    using nt rfind_last_occurrence[of s "rev (tl d)" c "rev t"] by simp
  then show ?thesis using s nt by (intro exI[of _ "rev (tl d)"] exI[of _ "rev t"]) simp
qed

lemma slice_from_minus_one:
  "slice_from s (- 1) = (if s = [] then [] else [last s])"
proof (cases "s = []")
  case True
  then show ?thesis by (simp add: slice_from_def)
next
  case False
  then have "s = butlast s @ [last s]" by simp
  then have "drop (length (butlast s)) s = [last s]"
    by (metis append_eq_conv_conj)
  moreover have "nat (int (length s) + - 1) = length (butlast s)" by simp
  ultimately show ?thesis using False by (simp add: slice_from_def)
qed

lemma rsplit_once_stem:
  assumes "s = pre @ 46 # suf" and "46 \<notin> set suf"
  shows "hd (rsplit_once s 46) = pre"
proof -
  have "rfind s 46 = int (length pre)" using assms by (rule rfind_last_occurrence)
  moreover have "take (length pre) s = pre" using assms(1) by simp
  moreover have "46 \<in> set s" using assms(1) by simp
  ultimately show ?thesis by (simp add: rsplit_once_def)
qed

lemma rsplit_once_no_separator: "c \<notin> set s \<Longrightarrow> hd (rsplit_once s c) = s"
  by (simp add: rsplit_once_def)

section \<open>Facts about the validator\<close>

lemma allowed_extension_length: "e \<in> allowed_extensions \<Longrightarrow> 2 \<le> length e"
  by (auto simp: allowed_extensions_def S_def)

lemma no_dot_extension:
  assumes "46 \<notin> set fname"
  shows "file_extension x fname =
           (if str_lower x fname = [] then [] else [last (str_lower x fname)])"
  using assms by (simp add: file_extension_def rfind_none slice_from_minus_one)

lemma no_dot_rejected:
  assumes "46 \<notin> set fname" and "set (ALLOWED_EXTENSIONS st) = allowed_extensions"
  shows "file_extension x fname \<notin> set (ALLOWED_EXTENSIONS st)"
proof
  assume "file_extension x fname \<in> set (ALLOWED_EXTENSIONS st)"
  then have "2 \<le> length (file_extension x fname)"
    using assms(2) allowed_extension_length by simp
  then show False using no_dot_extension[OF assms(1), of x] by (simp split: if_splits)
qed

lemma valid_has_dot:
  assumes "fst (validate_image x st b fname)"
    and "set (ALLOWED_EXTENSIONS st) = allowed_extensions"
  shows "46 \<in> set fname"
proof (rule ccontr)
  assume "46 \<notin> set fname"
  then have "file_extension x fname \<notin> set (ALLOWED_EXTENSIONS st)"
    using assms(2) by (rule no_dot_rejected)
  then show False using assms(1) by (simp add: validate_image_def split: if_splits)
qed

text \<open>
  \<open>validate_image\<close> returns \<open>(True, "")\<close> exactly when its three checks pass, the second
  one on the extension it computes; a result that is valid carries the empty message;
  and when the first two checks pass and opening or verifying raises, the reason is
  "Invalid or corrupted image file: " followed by the description of what was raised.
\<close>

lemma validate_image_true_iff:
  "(validate_image x st image_bytes fname = (True, []) \<longleftrightarrow>
      int (length image_bytes) \<le> MAX_FILE_SIZE_BYTES st \<and>
      file_extension x fname \<in> set (ALLOWED_EXTENSIONS st) \<and>
      (\<exists>img. Image_open x image_bytes = Inr img \<and> Image_verify x img = Inr ()))
   \<and> (fst (validate_image x st image_bytes fname) \<longrightarrow>
        validate_image x st image_bytes fname = (True, []))
   \<and> (int (length image_bytes) \<le> MAX_FILE_SIZE_BYTES st \<and>
        file_extension x fname \<in> set (ALLOWED_EXTENSIONS st) \<and>
        (Image_open x image_bytes = Inl e \<or>
         (\<exists>img. Image_open x image_bytes = Inr img \<and> Image_verify x img = Inl e)) \<longrightarrow>
        validate_image x st image_bytes fname =
          (False, S ''Invalid or corrupted image file: '' @ e))"
  by (auto simp: validate_image_def corrupted_message_def split: sum.splits)

text \<open>
  Where lower-casing the file name lower-cases the part before its last dot and the part
  from it separately, and keeps the length of the first part, the extension the
  validator computes is the one the specification describes, and so are its verdicts.
\<close>

lemma extension_as_specified:
  assumes "fname = pre @ 46 # suf" and "46 \<notin> set suf"
    and "str_lower x fname = str_lower x pre @ str_lower x (46 # suf)"
    and "length (str_lower x pre) = length pre"
  shows "file_extension x fname = spec_extension x fname"
proof -
  have r: "rfind fname 46 = int (length pre)" using assms(1,2) by (rule rfind_last_occurrence)
  have "file_extension x fname = drop (length pre) (str_lower x pre @ str_lower x (46 # suf))"
    using assms(3) by (simp add: file_extension_def slice_from_def r)
  also have "\<dots> = str_lower x (46 # suf)" using assms(4) by simp
  finally have code: "file_extension x fname = str_lower x (46 # suf)" .
  have "slice_from fname (rfind fname 46) = 46 # suf"
    unfolding r using assms(1) by (simp add: slice_from_def)
  moreover have "46 \<in> set fname" using assms(1) by simp
  ultimately have "spec_extension x fname = str_lower x (46 # suf)"
    by (simp add: spec_extension_def)
  with code show ?thesis by simp
qed

lemma validate_image_as_specified:
  assumes "fname = pre @ 46 # suf" and "46 \<notin> set suf"
    and "str_lower x fname = str_lower x pre @ str_lower x (46 # suf)"
    and "length (str_lower x pre) = length pre"
  shows "validate_image x st image_bytes fname = (True, []) \<longleftrightarrow>
           int (length image_bytes) \<le> MAX_FILE_SIZE_BYTES st \<and>
           spec_extension x fname \<in> set (ALLOWED_EXTENSIONS st) \<and>
           (\<exists>img. Image_open x image_bytes = Inr img \<and> Image_verify x img = Inr ())"
  using conjunct1[OF validate_image_true_iff, of x st image_bytes fname]
    extension_as_specified[OF assms]
  by simp

text \<open>Runs of the stub on concrete uploads.\<close>

lemma stub_fields:
  "str_lower stub_ext = py_lower"
  "Image_open stub_ext [] = Inl (S ''cannot identify image file'')"
  "Image_open stub_ext [1] = Inr \<lparr>width = 2000, height = 1000, pixels = [1]\<rparr>"
  "Image_verify stub_ext img = Inr ()"
  "Image_resize stub_ext img sz = Inr (img\<lparr>width := fst sz, height := snd sz\<rparr>)"
  "rembg_remove stub_ext img = Inr img"
  "Image_save_PNG stub_ext img = Inr (pixels img)"
  by (simp_all add: stub_ext_def)

lemma default_fields:
  "MAX_FILE_SIZE_MB default_settings = 5"
  "MAX_FILE_SIZE_BYTES default_settings = 5242880"
  "MAX_IMAGE_WIDTH default_settings = 1024"
  "ALLOWED_EXTENSIONS default_settings = [S ''.jpg'', S ''.jpeg'', S ''.png'']"
  "set (ALLOWED_EXTENSIONS default_settings) = allowed_extensions"
  by (auto simp: default_settings_def Settings_def allowed_extensions_def)

lemma stub_extensions:
  "file_extension stub_ext (S ''photo.png'') = S ''.png''"
  "file_extension stub_ext (S ''Photo.PNG'') = S ''.png''"
  "file_extension stub_ext (S ''photo.gif'') = S ''.gif''"
  "file_extension stub_ext (S ''photo'') = S ''o''"
  "file_extension stub_ext (304 # S ''.png'') = 775 # S ''.png''"
  by (simp_all add: file_extension_def stub_fields rfind_def slice_from_def py_lower_def
      lower_cp_def S_def)

lemma stub_extension_checks:
  "file_extension stub_ext (S ''photo.png'') \<in> set (ALLOWED_EXTENSIONS default_settings)"
  "file_extension stub_ext (S ''photo.gif'') \<notin> set (ALLOWED_EXTENSIONS default_settings)"
  "file_extension stub_ext (S ''photo'') \<notin> set (ALLOWED_EXTENSIONS default_settings)"
  "file_extension stub_ext (304 # S ''.png'') \<notin> set (ALLOWED_EXTENSIONS default_settings)"
  by (simp_all add: file_extension_def stub_fields rfind_def slice_from_def py_lower_def
      lower_cp_def S_def default_fields(4))

lemma default_invalid_type_message:
  "invalid_type_message default_settings =
     S ''Invalid file type. Allowed types: .jpg, .jpeg, .png''"
  by (simp add: invalid_type_message_def default_fields S_def)

lemma failing_segmentation_fields:
  "str_lower failing_segmentation = py_lower"
  "Image_open failing_segmentation [1] = Inr \<lparr>width = 2000, height = 1000, pixels = [1]\<rparr>"
  "Image_verify failing_segmentation img = Inr ()"
  "Image_resize failing_segmentation img sz = Inr (img\<lparr>width := fst sz, height := snd sz\<rparr>)"
  "rembg_remove failing_segmentation img = Inl (S ''model failed'')"
  by (simp_all add: failing_segmentation_def stub_ext_def)

lemma ratio_1024_2000: "binary64 1024 2000 = (4611686018427388, - 53)"
  by (simp add: binary64_def round53_def round_half_even_def Let_def ilog2.simps)

lemma float_of_1000: "float_of_int 1000 = (8796093022208000, - 43)"
  by (simp add: float_of_int_def binary64_def round53_def round_half_even_def Let_def
      ilog2.simps)

lemma new_height_2000_1000:
  "new_height default_settings \<lparr>width = 2000, height = 1000, pixels = b\<rparr> = Inr 512"
  by (simp add: new_height_def py_truediv_def default_fields(3) ratio_1024_2000 float_of_1000
      fmul_def int_of_float_def binary64_def round53_def round_half_even_def Let_def
      ilog2.simps)

lemma new_height_flat:
  assumes "0 < MAX_IMAGE_WIDTH st" and "0 < width img" and "height img = 0"
  shows "new_height st img = Inr 0"
  using assms
  by (simp add: new_height_def py_truediv_def float_of_int_def binary64_def fmul_def
      int_of_float_def)

lemma ratio_1024_1122: "binary64 1024 1122 = (8220474186145076, - 53)"
  by (simp add: binary64_def round53_def round_half_even_def Let_def ilog2.simps)

lemma float_of_561: "float_of_int 561 = (4934608185458688, - 43)"
  by (simp add: float_of_int_def binary64_def round53_def round_half_even_def Let_def
      ilog2.simps)

lemma new_height_1122_561:
  "new_height default_settings \<lparr>width = 1122, height = 561, pixels = b\<rparr> = Inr 511"
  by (simp add: new_height_def py_truediv_def default_fields(3) ratio_1024_1122 float_of_561
      fmul_def int_of_float_def binary64_def round53_def round_half_even_def Let_def
      ilog2.simps)

lemma size_6mb: "file_size_mb (replicate 6291456 w) = (6755399441055744, - 50)"
  by (simp add: file_size_mb_def binary64_def round53_def round_half_even_def Let_def
      ilog2.simps)

lemma format_6mb: "format_2f (file_size_mb (replicate 6291456 w)) = S ''6.00''"
  by (simp add: size_6mb format_2f_def hundredths_def round_half_even_def Let_def
      digits.simps S_def)

lemma str_int_5: "str_int 5 = S ''5''"
  by (simp add: str_int_def digits.simps S_def)

lemma S_append: "S (a @ b) = S a @ S b"
  by (simp add: S_def)

section \<open>Facts about the response constructor\<close>

text \<open>
  Encoding as latin-1 succeeds exactly on strings of code points below 256.  With the
  media type and the header name of the handler, the constructor fails exactly when the
  value of the header does not encode, with the description of that failure.
\<close>

lemma S_latin1: "list_all (\<lambda>c. c < 256) (S s)"
proof -
  have "of_char c < (256::nat)" for c :: char
    by (metis of_char_mod_256 mod_less_divisor zero_less_numeral)
  then show ?thesis by (simp add: S_def list_all_iff)
qed

lemma encode_latin1_ok:
  "list_all (\<lambda>c. c < 256) s \<Longrightarrow> encode_latin1 s = Inr (map of_nat s)"
  by (simp add: encode_latin1_def)

lemma encode_latin1_raises:
  "\<not> list_all (\<lambda>c. c < 256) s \<Longrightarrow> \<exists>e. encode_latin1 s = Inl e"
  by (simp add: encode_latin1_def Let_def)

lemma lower_header_name: "py_lower (S ''Content-Disposition'') = S ''content-disposition''"
  by (simp add: py_lower_def lower_cp_def S_def)

lemma streaming_png_response:
  "StreamingResponse b (S ''image/png'') [(S ''Content-Disposition'', v)] =
     (case encode_latin1 v of
        Inl e \<Rightarrow> Inl e
      | Inr vb \<Rightarrow>
          Inr (Response 200 b (S ''image/png'')
                 [(map of_nat (S ''content-disposition''), vb),
                  (map of_nat (S ''content-type''), map of_nat (S ''image/png''))]))"
proof -
  have k: "encode_latin1 (py_lower (S ''Content-Disposition'')) =
           Inr (map of_nat (S ''content-disposition''))"
    unfolding lower_header_name by (rule encode_latin1_ok) (rule S_latin1)
  have m: "encode_latin1 (S ''image/png'') = Inr (map of_nat (S ''image/png''))"
    by (rule encode_latin1_ok) (rule S_latin1)
  have n: "(map of_nat (S ''content-type'') :: bytes) \<noteq> map of_nat (S ''content-disposition'')"
    by (simp add: S_def)
  have t: "\<not> startswith (S ''image/png'') (S ''text/'')"
    by (simp add: startswith_def S_def)
  show ?thesis
    by (cases "encode_latin1 v") (simp_all add: StreamingResponse_def init_headers_def k m n t)
qed

lemma cyrillic_extension:
  "file_extension stub_ext ([1092, 1086, 1090, 1086] @ S ''.png'') = S ''.png''"
  "file_extension stub_ext ([1092, 1086, 1090, 1086] @ S ''.png'')
     \<in> set (ALLOWED_EXTENSIONS default_settings)"
  by (simp_all add: file_extension_def stub_fields rfind_def slice_from_def py_lower_def
      lower_cp_def S_def default_fields(4))

lemma cyrillic_header_error:
  "encode_latin1 (S ''attachment; filename=no_bg_'' @ [1092, 1086, 1090, 1086] @ S ''.png'') =
     Inl ([39] @ S ''latin-1'' @ [39] @
          S '' codec can't encode characters in position 27-30: ordinal not in range(256)'')"
  by (simp add: encode_latin1_def unicode_encode_error_str_def Let_def str_int_def
      digits.simps S_def)

lemma single_code_point_error:
  "encode_latin1 (S ''a'' @ [1092]) =
     Inl ([39] @ S ''latin-1'' @ [39] @ S '' codec can't encode character '' @ [39] @
          [92] @ S ''u0444'' @ [39] @ S '' in position 1: ordinal not in range(256)'')"
  "encode_latin1 (S ''a'' @ [128512] @ S ''b'') =
     Inl ([39] @ S ''latin-1'' @ [39] @ S '' codec can't encode character '' @ [39] @
          [92] @ S ''U0001f600'' @ [39] @ S '' in position 1: ordinal not in range(256)'')"
  by (simp_all add: encode_latin1_def unicode_encode_error_str_def Let_def str_int_def
      digits.simps hex.simps hex_padded_def hex_digit_def S_def numeral_3_eq_3)

section \<open>Facts about the float operations\<close>

text \<open>
  The error analysis behind the two float computations of the service.  Each rounding
  to 53 bits changes a positive value by at most its \<open>2 ^ -53\<close>-th part
  (\<open>round53_error\<close>); the three roundings of \<open>int(height * (MAX_IMAGE_WIDTH / width))\<close>
  keep the product within \<open>1 / width\<close> of the exact quotient (\<open>scaled_height_near\<close>), which
  fixes its integer part up to the case of an exact quotient (\<open>new_height_value\<close>); and the
  division of a length below \<open>2 ^ 53\<close> by \<open>1024 * 1024\<close> is exact (\<open>file_size_exact\<close>).
\<close>

lemma ilog2_bounds: "0 < n \<Longrightarrow> 2 ^ ilog2 n \<le> n \<and> n < 2 ^ Suc (ilog2 n)"
proof (induction n rule: ilog2.induct)
  case (1 n)
  show ?case
  proof (cases "n < 2")
    case True
    with "1.prems" have "n = 1" by simp
    then show ?thesis by (simp add: ilog2.simps)
  next
    case False
    then have pos: "0 < n div 2" by simp
    from "1.IH"[OF False pos] have lo: "2 ^ ilog2 (n div 2) \<le> n div 2"
      and hi: "n div 2 < 2 ^ Suc (ilog2 (n div 2))" by simp_all
    have eq: "ilog2 n = Suc (ilog2 (n div 2))" using False by (subst ilog2.simps) simp
    have "2 * 2 ^ ilog2 (n div 2) \<le> n" using lo by linarith
    moreover have "n < 2 * 2 ^ Suc (ilog2 (n div 2))" using hi by linarith
    ultimately show ?thesis by (simp add: eq)
  qed
qed

lemma rhe_bound:
  assumes "0 < q"
  shows "2 * \<bar>int q * int (round_half_even p q) - int p\<bar> \<le> int q"
proof -
  define d where "d = p div q"
  define r where "r = p mod q"
  have "p = q * d + r" unfolding d_def r_def by simp
  then have "int p = int (q * d + r)" by simp
  then have p: "int p = int q * int d + int r" by simp
  have r: "r < q" unfolding r_def using assms by simp
  have "round_half_even p q = d \<and> 2 * r \<le> q \<or> round_half_even p q = d + 1 \<and> q \<le> 2 * r"
    unfolding round_half_even_def Let_def d_def[symmetric] r_def[symmetric] by auto
  then show ?thesis
  proof
    assume a: "round_half_even p q = d \<and> 2 * r \<le> q"
    then have "int q * int (round_half_even p q) - int p = - int r" using p by simp
    then show ?thesis using a by simp
  next
    assume a: "round_half_even p q = d + 1 \<and> q \<le> 2 * r"
    then have "int q * int (round_half_even p q) - int p = int q - int r"
      using p by (simp add: algebra_simps)
    then show ?thesis using a r by simp
  qed
qed

lemma rhe_rat:
  assumes "0 < q"
  shows "\<bar>of_nat (round_half_even p q) - of_nat p / of_nat q\<bar> \<le> (1 / 2 :: rat)"
proof -
  have q: "(0::rat) < of_nat q" using assms by simp
  have "of_int (2 * \<bar>int q * int (round_half_even p q) - int p\<bar>) \<le> (of_int (int q) :: rat)"
    using rhe_bound[OF assms, of p] by (simp only: of_int_le_iff)
  then have "2 * \<bar>of_nat q * of_nat (round_half_even p q) - (of_nat p :: rat)\<bar> \<le> of_nat q"
    by simp
  moreover have "of_nat q * of_nat (round_half_even p q) - (of_nat p :: rat)
      = of_nat q * (of_nat (round_half_even p q) - of_nat p / of_nat q)"
    using q by (simp add: field_simps)
  ultimately have "2 * (of_nat q * \<bar>of_nat (round_half_even p q) - of_nat p / of_nat q\<bar>) \<le> (of_nat q :: rat)"
    using q by (simp add: abs_mult)
  then have "of_nat q * (2 * \<bar>of_nat (round_half_even p q) - of_nat p / of_nat q\<bar>) \<le> (of_nat q :: rat) * 1"
    by (simp add: mult.left_commute)
  then have "2 * \<bar>of_nat (round_half_even p q) - of_nat p / of_nat q\<bar> \<le> (1::rat)"
    using q by (simp only: mult_le_cancel_left_pos)
  then show ?thesis by simp
qed

lemma rhe_exact: "0 < q \<Longrightarrow> round_half_even (a * q) q = a"
  by (simp add: round_half_even_def)

lemma scale_less_left: "0 < (c::nat) \<Longrightarrow> 2 * (c * x) < c * q \<longleftrightarrow> 2 * x < q"
proof -
  assume c: "0 < c"
  have "2 * (c * x) = c * (2 * x)" by (simp only: mult.left_commute)
  then show ?thesis using c by (simp only: nat_mult_less_cancel1)
qed

lemma scale_less_right: "0 < (c::nat) \<Longrightarrow> c * q < 2 * (c * x) \<longleftrightarrow> q < 2 * x"
proof -
  assume c: "0 < c"
  have "2 * (c * x) = c * (2 * x)" by (simp only: mult.left_commute)
  then show ?thesis using c by (simp only: nat_mult_less_cancel1)
qed

lemma rhe_scale:
  assumes "0 < c" "0 < q"
  shows "round_half_even (c * p) (c * q) = round_half_even p q"
proof -
  have d: "(c * p) div (c * q) = p div q" using assms by simp
  have m: "(c * p) mod (c * q) = c * (p mod q)" by (rule mult_mod_right[symmetric])
  show ?thesis
    by (simp only: round_half_even_def Let_def d m scale_less_left[OF assms(1)]
        scale_less_right[OF assms(1)])
qed

lemma powi_nonneg: "0 \<le> t \<Longrightarrow> (2::rat) powi t = 2 ^ nat t"
  by (simp add: power_int_def)

lemma powi_neg: "t < 0 \<Longrightarrow> (2::rat) powi t = 1 / 2 ^ nat (- t)"
  by (simp add: power_int_def power_one_over)

lemma fval_powi: "fval f = of_int (fst f) * 2 powi (snd f)"
proof (cases "0 \<le> snd f")
  case True
  then show ?thesis by (simp add: fval_def powi_nonneg)
next
  case False
  then show ?thesis by (simp add: fval_def powi_neg)
qed

lemma scaled_quotient:
  assumes "0 < q"
  shows "(of_nat (p * 2 ^ nat (- t)) :: rat) / of_nat (q * 2 ^ nat t)
         = of_nat p / of_nat q * 2 powi (- t)"
proof (cases "0 < t")
  case True
  then have "(2::rat) powi (- t) = 1 / 2 ^ nat t" using powi_neg[of "- t"] by simp
  then show ?thesis using True by simp
next
  case False
  then have "(2::rat) powi (- t) = 2 ^ nat (- t)" using powi_nonneg[of "- t"] by simp
  then show ?thesis using False by simp
qed

lemma powi_diff: "(2::rat) powi (m - n) = 2 powi m / 2 powi n"
  by (rule power_int_diff) simp

lemma quotient_window:
  assumes "0 < p" "0 < q"
  defines "k \<equiv> int (ilog2 p) - int (ilog2 q)"
  shows "(2::rat) powi (k - 1) < of_nat p / of_nat q"
    and "(of_nat p / of_nat q :: rat) < 2 powi (k + 1)"
proof -
  let ?a = "ilog2 p" and ?b = "ilog2 q"
  from ilog2_bounds[OF assms(1)] have pl: "2 ^ ?a \<le> p" and ph: "p < 2 ^ Suc ?a" by simp_all
  from ilog2_bounds[OF assms(2)] have ql: "2 ^ ?b \<le> q" and qh: "q < 2 ^ Suc ?b" by simp_all
  have pl': "(2::rat) ^ ?a \<le> of_nat p" using pl by (metis of_nat_le_iff of_nat_numeral of_nat_power)
  have ph': "(of_nat p :: rat) < 2 ^ Suc ?a" using ph by (metis of_nat_less_iff of_nat_numeral of_nat_power)
  have ql': "(2::rat) ^ ?b \<le> of_nat q" using ql by (metis of_nat_le_iff of_nat_numeral of_nat_power)
  have qh': "(of_nat q :: rat) < 2 ^ Suc ?b" using qh by (metis of_nat_less_iff of_nat_numeral of_nat_power)
  have qpos: "(0::rat) < of_nat q" using assms(2) by simp
  have ppos: "(0::rat) < of_nat p" using assms(1) by simp
  have e1: "(2::rat) powi (k - 1) = 2 ^ ?a / 2 ^ Suc ?b"
  proof -
    have "k - 1 = int ?a - int (Suc ?b)" by (simp add: k_def)
    then have "(2::rat) powi (k - 1) = 2 powi (int ?a) / 2 powi (int (Suc ?b))"
      by (simp only: powi_diff)
    then show ?thesis by (simp only: power_int_of_nat)
  qed
  have e2: "(2::rat) powi (k + 1) = 2 ^ Suc ?a / 2 ^ ?b"
  proof -
    have "k + 1 = int (Suc ?a) - int ?b" by (simp add: k_def)
    then have "(2::rat) powi (k + 1) = 2 powi (int (Suc ?a)) / 2 powi (int ?b)"
      by (simp only: powi_diff)
    then show ?thesis by (simp only: power_int_of_nat)
  qed
  have "(2::rat) ^ ?a / 2 ^ Suc ?b < of_nat p / of_nat q"
  proof -
    have "(2::rat) ^ ?a * of_nat q < of_nat p * 2 ^ Suc ?b"
    proof -
      have "(2::rat) ^ ?a * of_nat q < 2 ^ ?a * 2 ^ Suc ?b" using qh' by simp
      also have "\<dots> \<le> of_nat p * 2 ^ Suc ?b" using pl' by simp
      finally show ?thesis .
    qed
    then show ?thesis using qpos by (simp add: field_simps)
  qed
  then show "(2::rat) powi (k - 1) < of_nat p / of_nat q" by (simp only: e1)
  have "(of_nat p :: rat) / of_nat q < 2 ^ Suc ?a / 2 ^ ?b"
  proof -
    have "(of_nat p :: rat) * 2 ^ ?b < 2 ^ Suc ?a * of_nat q"
    proof -
      have "(of_nat p :: rat) * 2 ^ ?b < 2 ^ Suc ?a * 2 ^ ?b" using ph' by simp
      also have "\<dots> \<le> 2 ^ Suc ?a * of_nat q" using ql' by simp
      finally show ?thesis .
    qed
    then show ?thesis using qpos by (simp add: field_simps)
  qed
  then show "(of_nat p / of_nat q :: rat) < 2 powi (k + 1)" by (simp only: e2)
qed

lemma scaled_less_iff:
  assumes "0 < q"
  shows "p * 2 ^ nat (- k) < q * 2 ^ nat k \<longleftrightarrow> (of_nat p / of_nat q :: rat) < 2 powi k"
proof -
  let ?P = "p * 2 ^ nat (- k)" and ?Q = "q * 2 ^ nat k"
  have Q: "(0::rat) < of_nat ?Q" using assms by simp
  have "?P < ?Q \<longleftrightarrow> (of_nat ?P :: rat) < of_nat ?Q" by (simp only: of_nat_less_iff)
  also have "\<dots> \<longleftrightarrow> (of_nat ?P :: rat) / of_nat ?Q < 1" using Q by (simp only: divide_less_eq_1_pos)
  also have "(of_nat ?P :: rat) / of_nat ?Q = of_nat p / of_nat q * 2 powi (- k)"
    using assms by (rule scaled_quotient)
  also have "(of_nat p / of_nat q :: rat) * 2 powi (- k) < 1 \<longleftrightarrow>
             (of_nat p / of_nat q :: rat) < 2 powi k"
  proof -
    have "(2::rat) powi (- k) = 1 / 2 powi k" by (rule power_int_minus_divide)
    then have "(of_nat p / of_nat q :: rat) * 2 powi (- k) = (of_nat p / of_nat q) / 2 powi k"
      by simp
    moreover have "(0::rat) < 2 powi k" by simp
    ultimately show ?thesis by (simp only: pos_divide_less_eq mult_1)
  qed
  finally show ?thesis .
qed

lemma round53_spec:
  assumes "0 < p" "0 < q"
  shows "\<exists>m t. round53 p q = (int m, t)
           \<and> \<bar>of_nat m - (of_nat p / of_nat q) * 2 powi (- t)\<bar> \<le> (1 / 2 :: rat)
           \<and> 2 ^ 52 \<le> (of_nat p / of_nat q :: rat) * 2 powi (- t)
           \<and> (of_nat p / of_nat q :: rat) * 2 powi (- t) < 2 ^ 53"
proof -
  define x :: rat where "x = of_nat p / of_nat q"
  define k where "k = int (ilog2 p) - int (ilog2 q)"
  define e where "e = (if p * 2 ^ nat (- k) < q * 2 ^ nat k then k - 1 else k)"
  define t where "t = e - 52"
  define P where "P = p * 2 ^ nat (- t)"
  define Q where "Q = q * 2 ^ nat t"
  define m where "m = round_half_even P Q"
  have r: "round53 p q = (int m, t)"
    by (simp add: round53_def Let_def m_def P_def Q_def t_def e_def k_def)
  have lo: "2 powi e \<le> x" and hi: "x < 2 powi (e + 1)"
  proof -
    show "2 powi e \<le> x"
    proof (cases "p * 2 ^ nat (- k) < q * 2 ^ nat k")
      case True
      then have "e = k - 1" by (simp add: e_def)
      then show ?thesis
        using quotient_window(1)[OF assms] by (simp add: x_def k_def less_imp_le)
    next
      case False
      then have "e = k" by (simp add: e_def)
      moreover have "\<not> x < 2 powi k"
        using False scaled_less_iff[OF assms(2), of p k] by (simp add: x_def)
      ultimately show ?thesis by simp
    qed
    show "x < 2 powi (e + 1)"
    proof (cases "p * 2 ^ nat (- k) < q * 2 ^ nat k")
      case True
      then have "e + 1 = k" by (simp add: e_def)
      moreover have "x < 2 powi k"
        using True scaled_less_iff[OF assms(2), of p k] by (simp add: x_def)
      ultimately show ?thesis by simp
    next
      case False
      then have "e = k" by (simp add: e_def)
      then show ?thesis
        using quotient_window(2)[OF assms] by (simp add: x_def k_def)
    qed
  qed
  have pe: "(0::rat) < 2 powi e" by simp
  have st: "(2::rat) powi (- t) = 2 ^ 52 / 2 powi e"
  proof -
    have "- t = 52 - e" by (simp add: t_def)
    then have "(2::rat) powi (- t) = 2 powi 52 / 2 powi e" by (simp only: powi_diff)
    then show ?thesis by simp
  qed
  have y_lo: "2 ^ 52 \<le> x * 2 powi (- t)"
  proof -
    have "(2::rat) ^ 52 = 2 powi e * (2 ^ 52 / 2 powi e)" using pe by simp
    also have "\<dots> \<le> x * (2 ^ 52 / 2 powi e)"
      using lo pe by (intro mult_right_mono) simp_all
    finally show ?thesis by (simp only: st)
  qed
  have y_hi: "x * 2 powi (- t) < 2 ^ 53"
  proof -
    have e1: "(2::rat) powi (e + 1) = 2 powi e * 2" by (simp add: power_int_add)
    have "x * (2 ^ 52 / 2 powi e) < 2 powi (e + 1) * (2 ^ 52 / 2 powi e)"
      using hi pe by (intro mult_strict_right_mono) simp_all
    also have "\<dots> = 2 ^ 53" using pe by (simp add: e1)
    finally show ?thesis by (simp only: st)
  qed
  have Qpos: "0 < Q" using assms(2) by (simp add: Q_def)
  have "(of_nat P :: rat) / of_nat Q = x * 2 powi (- t)"
    unfolding P_def Q_def x_def using assms(2) by (rule scaled_quotient)
  then have near: "\<bar>of_nat m - x * 2 powi (- t)\<bar> \<le> (1 / 2 :: rat)"
    using rhe_rat[OF Qpos, of P] by (simp add: m_def)
  from r near y_lo y_hi show ?thesis unfolding x_def by blast
qed

lemma round53_error:
  assumes "0 < p" "0 < q"
  shows "\<bar>fval (round53 p q) - of_nat p / of_nat q\<bar> \<le> (of_nat p / of_nat q) / 2 ^ 53"
    and "0 < fst (round53 p q)"
proof -
  define x :: rat where "x = of_nat p / of_nat q"
  from round53_spec[OF assms] obtain m t where
    r: "round53 p q = (int m, t)"
    and near: "\<bar>of_nat m - x * 2 powi (- t)\<bar> \<le> (1 / 2 :: rat)"
    and y_lo: "2 ^ 52 \<le> x * 2 powi (- t)"
    and y_hi: "x * 2 powi (- t) < 2 ^ 53"
    unfolding x_def by blast
  define y where "y = x * 2 powi (- t)"
  have pt: "(0::rat) < 2 powi t" by simp
  have inv: "(2::rat) powi (- t) * 2 powi t = 1"
    by (simp add: power_int_minus)
  have xy: "x = y * 2 powi t"
  proof -
    have "y * 2 powi t = x * (2 powi (- t) * 2 powi t)" by (simp add: y_def)
    then show ?thesis by (simp only: inv)
  qed
  have fv: "fval (round53 p q) = of_nat m * 2 powi t" by (simp add: r fval_powi)
  have "fval (round53 p q) - x = (of_nat m - y) * 2 powi t"
    by (simp add: fv xy algebra_simps)
  then have "\<bar>fval (round53 p q) - x\<bar> = \<bar>of_nat m - y\<bar> * 2 powi t"
    using pt by (simp add: abs_mult)
  also have "\<dots> \<le> (1 / 2) * 2 powi t"
    using near pt unfolding y_def by (intro mult_right_mono) simp_all
  also have "\<dots> \<le> x / 2 ^ 53"
  proof -
    have "(2::rat) ^ 52 * 2 powi t \<le> y * 2 powi t"
      using y_lo pt unfolding y_def by (intro mult_right_mono) simp_all
    then have "(2::rat) ^ 52 * 2 powi t \<le> x" by (simp only: xy[symmetric])
    then show ?thesis by (simp add: field_simps)
  qed
  finally show "\<bar>fval (round53 p q) - of_nat p / of_nat q\<bar> \<le> (of_nat p / of_nat q) / 2 ^ 53"
    by (simp only: x_def)
  have "(1::rat) \<le> y - 1 / 2" using y_lo unfolding y_def by simp
  also have "\<dots> \<le> of_nat m" using near unfolding y_def by linarith
  finally have "(0::rat) < of_nat m" by simp
  then show "0 < fst (round53 p q)" by (simp add: r)
qed

lemma binary64_pos:
  assumes "0 < a" "0 < b"
  shows "binary64 a b = round53 (nat a) (nat b)"
proof -
  have "sgn a = 1" "sgn b = 1" "\<bar>a\<bar> = a" "\<bar>b\<bar> = b" "a \<noteq> 0" using assms by simp_all
  then show ?thesis by (simp add: binary64_def)
qed

lemma binary64_error:
  assumes "0 < a" "0 < b"
  shows "\<bar>fval (binary64 a b) - of_int a / of_int b\<bar> \<le> (of_int a / of_int b) / 2 ^ 53"
    and "0 < fst (binary64 a b)"
proof -
  have na: "0 < nat a" and nb: "0 < nat b" using assms by simp_all
  have ea: "(of_nat (nat a) :: rat) = of_int a" using assms(1) by simp
  have eb: "(of_nat (nat b) :: rat) = of_int b" using assms(2) by simp
  from round53_error(1)[OF na nb]
  show "\<bar>fval (binary64 a b) - of_int a / of_int b\<bar> \<le> (of_int a / of_int b) / 2 ^ 53"
    by (simp only: binary64_pos[OF assms] ea eb)
  from round53_error(2)[OF na nb]
  show "0 < fst (binary64 a b)" by (simp only: binary64_pos[OF assms])
qed

lemma fval_pos: "0 < fst f \<Longrightarrow> 0 < fval f"
  by (simp add: fval_powi)

lemma fmul_error:
  assumes "0 < fst f" "0 < fst g"
  shows "\<bar>fval (fmul f g) - fval f * fval g\<bar> \<le> (fval f * fval g) / 2 ^ 53"
    and "0 < fst (fmul f g)"
proof -
  define s where "s = snd f + snd g"
  define A where "A = fst f * fst g * 2 ^ nat s"
  define B :: int where "B = 2 ^ nat (- s)"
  have A: "0 < A" using assms by (simp add: A_def)
  have B: "0 < B" by (simp add: B_def)
  have fm: "fmul f g = binary64 A B" by (simp add: fmul_def A_def B_def s_def)
  have q: "(of_int A :: rat) / of_int B = fval f * fval g"
  proof -
    have "(of_int A :: rat) / of_int B = of_int (fst f * fst g) * (2 ^ nat s / 2 ^ nat (- s))"
      by (simp add: A_def B_def)
    also have "(2::rat) ^ nat s / 2 ^ nat (- s) = 2 powi s"
    proof (cases "0 \<le> s")
      case True
      then show ?thesis by (simp add: powi_nonneg)
    next
      case False
      then show ?thesis by (simp add: powi_neg)
    qed
    also have "(2::rat) powi s = 2 powi (snd f) * 2 powi (snd g)"
      by (simp add: s_def power_int_add)
    finally show ?thesis by (simp add: fval_powi)
  qed
  from binary64_error(1)[OF A B]
  show "\<bar>fval (fmul f g) - fval f * fval g\<bar> \<le> (fval f * fval g) / 2 ^ 53"
    by (simp only: fm q)
  from binary64_error(2)[OF A B] show "0 < fst (fmul f g)" by (simp only: fm)
qed

lemma int_of_float_floor:
  assumes "0 \<le> fst f"
  shows "int_of_float f = \<lfloor>fval f\<rfloor>"
proof (cases "0 \<le> snd f")
  case True
  have "fval f = of_int (fst f * 2 ^ nat (snd f))" using True by (simp add: fval_def)
  then have "\<lfloor>fval f\<rfloor> = fst f * 2 ^ nat (snd f)" by (simp only: floor_of_int)
  then show ?thesis using True by (simp add: int_of_float_def)
next
  case False
  have "fval f = of_int (fst f) / of_int (2 ^ nat (- snd f))"
    using False by (simp add: fval_def)
  then have fl: "\<lfloor>fval f\<rfloor> = fst f div 2 ^ nat (- snd f)"
    by (simp only: floor_divide_of_int_eq)
  show ?thesis
  proof (cases "fst f = 0")
    case True
    then show ?thesis using False fl by (simp add: int_of_float_def)
  next
    case nz: False
    then have "sgn (fst f) = 1" "\<bar>fst f\<bar> = fst f" using assms by simp_all
    then show ?thesis using False fl by (simp add: int_of_float_def)
  qed
qed

lemma rel_bounds:
  fixes a A u :: rat
  assumes "\<bar>a - A\<bar> \<le> A * u"
  shows "A * (1 - u) \<le> a" and "a \<le> A * (1 + u)"
proof -
  have "A - A * u \<le> a" "a \<le> A + A * u" using assms by linarith+
  then show "A * (1 - u) \<le> a" and "a \<le> A * (1 + u)" by (simp_all add: algebra_simps)
qed

lemma three_roundings:
  fixes a b c A B :: rat
  assumes A: "0 \<le> A" and B: "0 \<le> B"
    and a: "\<bar>a - A\<bar> \<le> A / 2 ^ 53"
    and b: "\<bar>b - B\<bar> \<le> B / 2 ^ 53"
    and c: "\<bar>c - a * b\<bar> \<le> (a * b) / 2 ^ 53"
  shows "\<bar>c - A * B\<bar> \<le> (A * B) / 2 ^ 51"
proof -
  define u :: rat where "u = 1 / 2 ^ 53"
  define lo where "lo = 1 - u"
  define hi where "hi = 1 + u"
  have lo0: "0 \<le> lo" and hi0: "0 \<le> hi" by (simp_all add: lo_def hi_def u_def)
  have hi3: "hi * hi * hi \<le> 1 + 1 / 2 ^ 51" by (simp add: hi_def u_def)
  have lo3: "1 - 1 / 2 ^ 51 \<le> lo * lo * lo" by (simp add: lo_def u_def)
  have a': "\<bar>a - A\<bar> \<le> A * u" using a by (simp add: u_def)
  have b': "\<bar>b - B\<bar> \<le> B * u" using b by (simp add: u_def)
  have c': "\<bar>c - a * b\<bar> \<le> (a * b) * u" using c by (simp add: u_def)
  from rel_bounds[OF a'] have al: "A * lo \<le> a" and ah: "a \<le> A * hi"
    by (simp_all add: lo_def hi_def)
  from rel_bounds[OF b'] have bl: "B * lo \<le> b" and bh: "b \<le> B * hi"
    by (simp_all add: lo_def hi_def)
  from rel_bounds[OF c'] have cl: "(a * b) * lo \<le> c" and ch: "c \<le> (a * b) * hi"
    by (simp_all add: lo_def hi_def)
  have Alo: "0 \<le> A * lo" using A lo0 by simp
  have Blo: "0 \<le> B * lo" using B lo0 by simp
  have a0: "0 \<le> a" using Alo al by linarith
  have b0: "0 \<le> b" using Blo bl by linarith
  have AB: "0 \<le> A * B" using A B by simp
  have abh: "a * b \<le> (A * hi) * (B * hi)"
    using ah bh by (rule mult_mono) (use A hi0 b0 in simp_all)
  have abl: "(A * lo) * (B * lo) \<le> a * b"
    using al bl by (rule mult_mono) (use a0 Blo in simp_all)
  have "c \<le> ((A * hi) * (B * hi)) * hi"
  proof -
    have "(a * b) * hi \<le> ((A * hi) * (B * hi)) * hi"
      using abh hi0 by (rule mult_right_mono)
    then show ?thesis using ch by linarith
  qed
  also have "\<dots> = (A * B) * (hi * hi * hi)" by (simp add: algebra_simps)
  also have "\<dots> \<le> (A * B) * (1 + 1 / 2 ^ 51)"
    using hi3 AB by (rule mult_left_mono)
  finally have up: "c \<le> A * B + (A * B) / 2 ^ 51" by (simp add: algebra_simps)
  have "(A * B) * (1 - 1 / 2 ^ 51) \<le> (A * B) * (lo * lo * lo)"
    using lo3 AB by (rule mult_left_mono)
  also have "\<dots> = ((A * lo) * (B * lo)) * lo" by (simp add: algebra_simps)
  also have "\<dots> \<le> c"
  proof -
    have "((A * lo) * (B * lo)) * lo \<le> (a * b) * lo"
      using abl lo0 by (rule mult_right_mono)
    then show ?thesis using cl by linarith
  qed
  finally have dn: "A * B - (A * B) / 2 ^ 51 \<le> c" by (simp add: algebra_simps)
  from up dn show ?thesis by linarith
qed

lemma scaled_height_near:
  assumes M: "0 < M" and w: "0 < w" and h: "0 < h" and small: "h * M < 2 ^ 51"
  defines "v \<equiv> fval (fmul (float_of_int h) (binary64 M w))"
  shows "\<bar>v - of_int (h * M) / of_int w\<bar> < 1 / of_int w"
    and "0 < fst (fmul (float_of_int h) (binary64 M w))"
proof -
  define a where "a = fval (float_of_int h)"
  define b where "b = fval (binary64 M w)"
  have ha: "\<bar>a - of_int h\<bar> \<le> of_int h / 2 ^ 53" and pa: "0 < fst (float_of_int h)"
    using binary64_error[OF h, of 1] by (simp_all add: a_def float_of_int_def)
  have hb: "\<bar>b - of_int M / of_int w\<bar> \<le> (of_int M / of_int w) / 2 ^ 53"
    and pb: "0 < fst (binary64 M w)"
    using binary64_error[OF M w] by (simp_all add: b_def)
  have hc: "\<bar>v - a * b\<bar> \<le> (a * b) / 2 ^ 53"
    using fmul_error(1)[OF pa pb] by (simp add: v_def a_def b_def)
  show "0 < fst (fmul (float_of_int h) (binary64 M w))" using pa pb by (rule fmul_error(2))
  have A: "(0::rat) \<le> of_int h" using h by simp
  have B: "(0::rat) \<le> of_int M / of_int w" using M w by simp
  have "\<bar>v - of_int h * (of_int M / of_int w)\<bar> \<le> (of_int h * (of_int M / of_int w)) / 2 ^ 51"
    using A B ha hb hc by (rule three_roundings)
  then have e: "\<bar>v - of_int (h * M) / of_int w\<bar> \<le> (of_int (h * M) / of_int w) / 2 ^ 51"
    by simp
  have wpos: "(0::rat) < of_int w" using w by simp
  have "(of_int (h * M) :: rat) < of_int (2 ^ 51)" using small by (simp only: of_int_less_iff)
  then have "(of_int (h * M) :: rat) / 2 ^ 51 < 1" by simp
  then have "(of_int (h * M) :: rat) / 2 ^ 51 / of_int w < 1 / of_int w"
    using wpos by (simp only: divide_strict_right_mono)
  then have "(of_int (h * M) / of_int w) / 2 ^ 51 < (1::rat) / of_int w"
    by (simp add: field_simps)
  with e show "\<bar>v - of_int (h * M) / of_int w\<bar> < 1 / of_int w" by linarith
qed

lemma floor_near_quotient:
  fixes v :: rat and N w :: int
  assumes w: "0 < w" and near: "\<bar>v - of_int N / of_int w\<bar> < 1 / of_int w"
  shows "\<lfloor>v\<rfloor> = N div w \<or> (w dvd N \<and> \<lfloor>v\<rfloor> = N div w - 1)"
proof -
  define F where "F = N div w"
  define j where "j = N mod w"
  have N: "N = w * F + j" by (simp add: F_def j_def)
  have j0: "0 \<le> j" and jw: "j < w" using w by (simp_all add: j_def)
  have W: "(0::rat) < of_int w" using w by simp
  have "of_int N / of_int w - 1 / of_int w < v" "v < of_int N / of_int w + 1 / of_int w"
    using near by linarith+
  then have "(of_int N - 1) / of_int w < v" "v < (of_int N + 1) / of_int w"
    by (simp_all add: diff_divide_distrib add_divide_distrib)
  then have lo: "of_int N - 1 < v * of_int w" and hi: "v * of_int w < of_int N + 1"
    using W by (simp_all add: pos_divide_less_eq pos_less_divide_eq)
  have up: "v < of_int (F + 1)"
  proof -
    have "N + 1 \<le> w * (F + 1)" using N jw by (simp add: algebra_simps)
    then have "(of_int (N + 1) :: rat) \<le> of_int (w * (F + 1))" by (simp only: of_int_le_iff)
    then have "v * of_int w < of_int (F + 1) * of_int w" using hi by (simp add: mult.commute)
    then show ?thesis using W by (simp only: mult_less_cancel_right_pos)
  qed
  have dn1: "of_int (F - 1) \<le> v"
  proof -
    have "w * (F - 1) \<le> N - 1" using N j0 w by (simp add: algebra_simps)
    then have "(of_int (w * (F - 1)) :: rat) \<le> of_int (N - 1)" by (simp only: of_int_le_iff)
    then have "of_int (F - 1) * of_int w < v * of_int w" using lo by (simp add: mult.commute)
    then have "of_int (F - 1) < v" using W by (simp only: mult_less_cancel_right_pos)
    then show ?thesis by simp
  qed
  show ?thesis
  proof (cases "j = 0")
    case True
    then have d: "w dvd N" using N by simp
    have "\<lfloor>v\<rfloor> < F + 1" using up by (simp only: floor_less_iff)
    moreover have "F - 1 \<le> \<lfloor>v\<rfloor>" using dn1 by (simp only: le_floor_iff)
    ultimately have "\<lfloor>v\<rfloor> = F \<or> \<lfloor>v\<rfloor> = F - 1" by linarith
    then show ?thesis using d by (auto simp: F_def)
  next
    case False
    then have "1 \<le> j" using j0 by simp
    then have "w * F \<le> N - 1" using N by simp
    then have "(of_int (w * F) :: rat) \<le> of_int (N - 1)" by (simp only: of_int_le_iff)
    then have "of_int F * of_int w < v * of_int w" using lo by (simp add: mult.commute)
    then have "of_int F < v" using W by (simp only: mult_less_cancel_right_pos)
    then have "of_int F \<le> v" by simp
    then have "F \<le> \<lfloor>v\<rfloor>" by (simp only: le_floor_iff)
    moreover have "\<lfloor>v\<rfloor> < F + 1" using up by (simp only: floor_less_iff)
    ultimately have "\<lfloor>v\<rfloor> = F" by linarith
    then show ?thesis by (simp add: F_def)
  qed
qed

lemma new_height_value:
  assumes M: "0 < MAX_IMAGE_WIDTH st" and w: "0 < width img" and h: "0 < height img"
    and small: "height img * MAX_IMAGE_WIDTH st < 2 ^ 51"
  shows "\<exists>nh. new_height st img = Inr nh \<and>
           (nh = (height img * MAX_IMAGE_WIDTH st) div width img \<or>
            (width img dvd height img * MAX_IMAGE_WIDTH st \<and>
             nh = (height img * MAX_IMAGE_WIDTH st) div width img - 1))"
proof -
  let ?f = "fmul (float_of_int (height img)) (binary64 (MAX_IMAGE_WIDTH st) (width img))"
  from scaled_height_near[OF M w h small]
  have near: "\<bar>fval ?f - of_int (height img * MAX_IMAGE_WIDTH st) / of_int (width img)\<bar>
                < 1 / of_int (width img)"
    and pos: "0 < fst ?f" by simp_all
  have "new_height st img = Inr (int_of_float ?f)"
    using w by (simp add: new_height_def py_truediv_def)
  moreover have "int_of_float ?f = \<lfloor>fval ?f\<rfloor>" using pos by (intro int_of_float_floor) simp
  ultimately show ?thesis using floor_near_quotient[OF w near] by simp
qed

lemma powi_gt_half_nonneg:
  assumes "(1 / 2 :: rat) < 2 powi s"
  shows "0 \<le> s"
proof (rule ccontr)
  assume "\<not> 0 \<le> s"
  then have "s \<le> - 1" by simp
  then have "(2::rat) powi s \<le> 2 powi (- 1)" by (intro power_int_increasing) simp_all
  then show False using assms by simp
qed

lemma file_size_exact:
  assumes n: "0 < n" and small: "n < 2 ^ 53"
  shows "\<exists>c. binary64 (int n) (1024 * 1024) = (int (n * 2 ^ c), - int (c + 20))"
proof -
  have q: "0 < (1048576::nat)" by simp
  from round53_spec[OF n q] obtain m t where
    r: "round53 n 1048576 = (int m, t)"
    and near0: "\<bar>of_nat m - (of_nat n / of_nat 1048576) * 2 powi (- t)\<bar> \<le> (1 / 2 :: rat)"
    and y_lo0: "2 ^ 52 \<le> (of_nat n / of_nat 1048576 :: rat) * 2 powi (- t)"
    by blast
  define y :: rat where "y = (of_nat n / of_nat 1048576) * 2 powi (- t)"
  have near: "\<bar>of_nat m - y\<bar> \<le> 1 / 2" using near0 unfolding y_def .
  have y_lo: "2 ^ 52 \<le> y" using y_lo0 unfolding y_def .
  define s where "s = - t - 20"
  have ps: "(2::rat) powi s = 2 powi (- t) / 2 ^ 20"
  proof -
    have "(2::rat) powi s = 2 powi (- t) / 2 powi 20" unfolding s_def by (rule powi_diff)
    then show ?thesis by simp
  qed
  have y: "y = of_nat n * 2 powi s" by (simp add: y_def ps)
  have npos: "(0::rat) < of_nat n" using n by simp
  have nlt: "(of_nat n :: rat) < 2 ^ 53"
    using small by (metis of_nat_less_iff of_nat_numeral of_nat_power)
  have "(1 / 2 :: rat) < 2 powi s"
  proof (rule ccontr)
    assume "\<not> (1 / 2 :: rat) < 2 powi s"
    then have "(2::rat) powi s \<le> 1 / 2" by simp
    then have "of_nat n * 2 powi s \<le> (of_nat n :: rat) * (1 / 2)"
      using npos by (intro mult_left_mono) simp_all
    also have "\<dots> < 2 ^ 53 * (1 / 2)" using nlt by simp
    finally have "(of_nat n :: rat) * 2 powi s < 2 ^ 52" by simp
    then show False using y_lo y by linarith
  qed
  then have s0: "0 \<le> s" by (rule powi_gt_half_nonneg)
  define c where "c = nat s"
  have t: "t = - int (c + 20)" using s0 by (simp add: c_def s_def)
  have "(2::rat) powi s = 2 ^ c" using s0 by (simp add: c_def powi_nonneg)
  then have yc: "y = of_nat (n * 2 ^ c)" by (simp add: y)
  have "\<bar>(of_nat m :: rat) - of_nat (n * 2 ^ c)\<bar> \<le> 1 / 2" using near unfolding yc .
  moreover have "(of_nat m :: rat) - of_nat (n * 2 ^ c) = of_int (int m - int (n * 2 ^ c))"
    by simp
  ultimately have "\<bar>(of_int (int m - int (n * 2 ^ c)) :: rat)\<bar> \<le> 1 / 2" by (simp only:)
  then have "(of_int \<bar>int m - int (n * 2 ^ c)\<bar> :: rat) < of_int 1"
    by (simp only: of_int_abs of_int_1)
  then have "\<bar>int m - int (n * 2 ^ c)\<bar> < 1" by (simp only: of_int_less_iff)
  then have m: "m = n * 2 ^ c" by linarith
  have "binary64 (int n) (1024 * 1024) = round53 n 1048576"
    using n binary64_pos[of "int n" 1048576] by simp
  then show ?thesis using r m t by auto
qed

lemma hundredths_file_size:
  assumes "length b < 2 ^ 53"
  shows "hundredths (file_size_mb b) = round_half_even (100 * length b) 1048576"
    and "0 \<le> fst (file_size_mb b)"
proof -
  have "hundredths (file_size_mb b) = round_half_even (100 * length b) 1048576
        \<and> 0 \<le> fst (file_size_mb b)"
  proof (cases "length b = 0")
    case True
    then show ?thesis by (simp add: file_size_mb_def binary64_def hundredths_def round_half_even_def)
  next
    case False
    then have n: "0 < length b" by simp
    from file_size_exact[OF n assms] obtain c where
      f: "file_size_mb b = (int (length b * 2 ^ c), - int (c + 20))"
      unfolding file_size_mb_def by blast
    have h1: "hundredths (file_size_mb b) =
        round_half_even (nat \<bar>int (length b * 2 ^ c)\<bar> * 100 * 2 ^ nat (- int (c + 20)))
          (2 ^ nat (- (- int (c + 20))))"
      by (simp only: f hundredths_def fst_conv snd_conv)
    have h2: "nat \<bar>int (length b * 2 ^ c)\<bar> = length b * 2 ^ c" by (simp only: abs_of_nat nat_int)
    have h3: "nat (- int (c + 20)) = 0" by simp
    have h4: "nat (- (- int (c + 20))) = c + 20" by simp
    have "hundredths (file_size_mb b) = round_half_even (length b * 2 ^ c * 100) (2 ^ (c + 20))"
      by (simp only: h1 h2 h3 h4 power_0 mult_1_right)
    also have "length b * 2 ^ c * 100 = 2 ^ c * (100 * length b)" by simp
    also have "(2::nat) ^ (c + 20) = 2 ^ c * 1048576" by (simp add: power_add)
    also have "round_half_even (2 ^ c * (100 * length b)) (2 ^ c * 1048576)
               = round_half_even (100 * length b) 1048576"
      by (rule rhe_scale) simp_all
    finally show ?thesis by (simp add: f)
  qed
  then show "hundredths (file_size_mb b) = round_half_even (100 * length b) 1048576"
    and "0 \<le> fst (file_size_mb b)" by simp_all
qed

lemma two_decimals:
  assumes "length b < 2 ^ 53"
  shows "\<exists>h. format_2f (file_size_mb b) =
               digits (h div 100) @ [46, 48 + h mod 100 div 10, 48 + h mod 10]
             \<and> 2 * \<bar>int h * 1048576 - 100 * int (length b)\<bar> \<le> 1048576"
proof -
  let ?h = "round_half_even (100 * length b) 1048576"
  have "format_2f (file_size_mb b) =
          digits (?h div 100) @ [46, 48 + ?h mod 100 div 10, 48 + ?h mod 10]"
    using hundredths_file_size[OF assms] by (simp add: format_2f_def)
  moreover have "2 * \<bar>int ?h * 1048576 - 100 * int (length b)\<bar> \<le> 1048576"
    using rhe_bound[of 1048576 "100 * length b"] by (simp add: mult.commute)
  ultimately show ?thesis by blast
qed

lemma digits_decimal:
  "(\<forall>d \<in> set (digits n). 48 \<le> d \<and> d \<le> 57)
   \<and> foldl (\<lambda>a d. 10 * a + (d - 48)) 0 (digits n) = n"
proof (induction n rule: digits.induct)
  case (1 n)
  show ?case
  proof (cases "n < 10")
    case True
    then show ?thesis by (subst (1 2) digits.simps) simp
  next
    case False
    have d: "digits n = digits (n div 10) @ [48 + n mod 10]"
      using False by (subst digits.simps) simp
    from "1.IH"[OF False] show ?thesis unfolding d by auto
  qed
qed

section \<open>The validator\<close>

text \<open>
  Claim C7, at the file name U+0130 followed by ".png", for an upload of one byte that
  opens and verifies as an image.  The three checks pass as the claim words them: the
  length is within \<open>MAX_FILE_SIZE_BYTES\<close>, the extension of the name (the part from its last
  dot on, lower-cased) is ".png", which is allowed, and the bytes decode.  Yet
  \<open>validate_image\<close> does not return \<open>(True, "")\<close>: its first component is \<open>False\<close>.  The
  extension it compares is taken from the lower-cased name at the index of the dot in
  the name as given (\<open>validate_image_true_iff\<close>); where lower-casing keeps that index in
  place, the verdict is the claimed one (\<open>validate_image_as_specified\<close>).
\<close>

theorem decodable_dotted_I_png_not_valid:
  "int (length [1::8 word]) \<le> MAX_FILE_SIZE_BYTES default_settings
   \<and> spec_extension stub_ext (304 # S ''.png'') = S ''.png''
   \<and> spec_extension stub_ext (304 # S ''.png'') \<in> set (ALLOWED_EXTENSIONS default_settings)
   \<and> Image_open stub_ext [1] = Inr \<lparr>width = 2000, height = 1000, pixels = [1]\<rparr>
   \<and> Image_verify stub_ext \<lparr>width = 2000, height = 1000, pixels = [1]\<rparr> = Inr ()
   \<and> validate_image stub_ext default_settings [1] (304 # S ''.png'') \<noteq> (True, [])
   \<and> fst (validate_image stub_ext default_settings [1] (304 # S ''.png'')) = False"
proof -
  have e: "spec_extension stub_ext (304 # S ''.png'') = S ''.png''"
    by (simp add: spec_extension_def stub_fields rfind_def slice_from_def py_lower_def
        lower_cp_def S_def)
  have a: "S ''.png'' \<in> set (ALLOWED_EXTENSIONS default_settings)"
    by (simp add: default_fields(4))
  have v: "validate_image stub_ext default_settings [1] (304 # S ''.png'') =
       (False, invalid_type_message default_settings)"
    using stub_extension_checks(4) by (simp add: validate_image_def default_fields(2))
  show ?thesis
    by (simp only: e a v stub_fields) (simp add: default_fields(2))
qed

text \<open>
  Claim C2.  With the settings the class body builds, so that \<open>MAX_FILE_SIZE_BYTES\<close> is
  \<open>MAX_FILE_SIZE_MB * 1024 * 1024\<close>: \<open>validate_image\<close> returns \<open>False\<close> with a reason that
  begins "File too large" exactly when the number of bytes exceeds \<open>MAX_FILE_SIZE_BYTES\<close>,
  whatever the bytes and the file name are.  The reason is then "File too large. Maximum
  size is ", the limit \<open>str(MAX_FILE_SIZE_MB)\<close>, "MB, got ", the size in MB formatted by
  \<open>:.2f\<close>, and "MB".  For fewer than \<open>2 ^ 53\<close> bytes the formatted size is a decimal
  numeral with exactly two digits after the point, whose value \<open>h / 100\<close> is within half a
  hundredth of \<open>len(image_bytes) / (1024 * 1024)\<close>.
\<close>

theorem validate_image_too_large_iff:
  "((\<exists>r. validate_image x (Settings host port mb mw title ver order) b fname =
           (False, S ''File too large'' @ r))
      \<longleftrightarrow> mb * 1024 * 1024 < int (length b))
   \<and> (mb * 1024 * 1024 < int (length b) \<longrightarrow>
        validate_image x (Settings host port mb mw title ver order) b fname =
          (False, S ''File too large. Maximum size is '' @ str_int mb @ S ''MB, got '' @
                  format_2f (file_size_mb b) @ S ''MB''))
   \<and> (length b < 2 ^ 53 \<longrightarrow>
        (\<exists>h. format_2f (file_size_mb b) =
                digits (h div 100) @ [46, 48 + h mod 100 div 10, 48 + h mod 10]
              \<and> 2 * \<bar>int h * 1048576 - 100 * int (length b)\<bar> \<le> 1048576))"
proof -
  let ?st = "Settings host port mb mw title ver order"
  have bytes: "MAX_FILE_SIZE_BYTES ?st = mb * 1024 * 1024"
    and mbs: "MAX_FILE_SIZE_MB ?st = mb"
    by (simp_all add: Settings_def)
  have large: "validate_image x ?st b fname =
          (False, S ''File too large. Maximum size is '' @ str_int mb @ S ''MB, got '' @
                  format_2f (file_size_mb b) @ S ''MB'')"
    if "mb * 1024 * 1024 < int (length b)"
    using that by (simp add: validate_image_def bytes mbs too_large_message_def)
  have head: "\<exists>r. validate_image x ?st b fname = (False, S ''File too large'' @ r)"
    if "mb * 1024 * 1024 < int (length b)"
    using large[OF that] by (simp add: S_def)
  have other: "\<not> (\<exists>r. validate_image x ?st b fname = (False, S ''File too large'' @ r))"
    if "\<not> mb * 1024 * 1024 < int (length b)"
    using that
    by (auto simp: validate_image_def bytes invalid_type_message_def corrupted_message_def
        S_def split: sum.splits)
  from large head other two_decimals show ?thesis by blast
qed

theorem validate_image_too_large_iff_witness:
  "(\<exists>r. validate_image stub_ext default_settings (replicate 6291456 0) (S ''photo.png'') =
          (False, S ''File too large'' @ r))
   \<and> MAX_FILE_SIZE_MB default_settings * 1024 * 1024 < int (length (replicate 6291456 (0::8 word)))
   \<and> validate_image stub_ext default_settings (replicate 6291456 0) (S ''photo.png'') =
       (False, S ''File too large. Maximum size is 5MB, got 6.00MB'')
   \<and> length (replicate 6291456 (0::8 word)) < 2 ^ 53
   \<and> format_2f (file_size_mb (replicate 6291456 (0::8 word))) = S ''6.00''
   \<and> (\<exists>h. format_2f (file_size_mb (replicate 6291456 (0::8 word))) =
             digits (h div 100) @ [46, 48 + h mod 100 div 10, 48 + h mod 10]
           \<and> 2 * \<bar>int h * 1048576 - 100 * int (length (replicate 6291456 (0::8 word)))\<bar>
               \<le> 1048576)"
proof -
  let ?b = "replicate 6291456 (0::8 word)"
  note t = validate_image_too_large_iff[of stub_ext "S ''0.0.0.0''" 8000 5 1024
      "S ''Background Remover API''" "S ''1.0.0''" "[S ''.jpg'', S ''.jpeg'', S ''.png'']"
      ?b "S ''photo.png''", folded default_settings_def]
  have a: "(5::int) * 1024 * 1024 < int (length ?b)" by simp
  have a': "MAX_FILE_SIZE_MB default_settings * 1024 * 1024 < int (length ?b)"
    by (simp add: default_fields(1))
  have c: "length ?b < 2 ^ 53" by simp
  have 1: "\<exists>r. validate_image stub_ext default_settings ?b (S ''photo.png'') =
          (False, S ''File too large'' @ r)"
    by (rule iffD2[OF conjunct1[OF t] a])
  have "validate_image stub_ext default_settings ?b (S ''photo.png'') =
          (False, S ''File too large. Maximum size is '' @ str_int 5 @ S ''MB, got '' @
                  format_2f (file_size_mb ?b) @ S ''MB'')"
    by (rule mp[OF conjunct1[OF conjunct2[OF t]] a])
  also have "S ''File too large. Maximum size is '' @ str_int 5 @ S ''MB, got '' @
                  format_2f (file_size_mb ?b) @ S ''MB'' =
             S ''File too large. Maximum size is 5MB, got 6.00MB''"
    by (simp only: format_6mb str_int_5 S_append[symmetric]) simp
  finally have 2: "validate_image stub_ext default_settings ?b (S ''photo.png'') =
       (False, S ''File too large. Maximum size is 5MB, got 6.00MB'')" .
  have 3: "\<exists>h. format_2f (file_size_mb ?b) =
             digits (h div 100) @ [46, 48 + h mod 100 div 10, 48 + h mod 10]
           \<and> 2 * \<bar>int h * 1048576 - 100 * int (length ?b)\<bar> \<le> 1048576"
    by (rule mp[OF conjunct2[OF conjunct2[OF t]] c])
  from 1 a' 2 c format_6mb[of 0] 3 show ?thesis by blast
qed

text \<open>
  Claim C4, as the code has it.  For a file name without a dot, \<open>rfind\<close> returns \<open>-1\<close> and
  the slice \<open>[-1:]\<close> of the lower-cased name is its last character (the empty string only
  when the lower-cased name is empty); an upload within the size limit is then rejected
  with the reason that lists the allowed extensions.  Nothing on this path raises.
\<close>

theorem no_dot_filename_rejected:
  assumes "46 \<notin> set fname"
    and "set (ALLOWED_EXTENSIONS st) = allowed_extensions"
    and "int (length image_bytes) \<le> MAX_FILE_SIZE_BYTES st"
  shows "file_extension x fname =
           (if str_lower x fname = [] then [] else [last (str_lower x fname)])
         \<and> validate_image x st image_bytes fname =
             (False, S ''Invalid file type. Allowed types: '' @
                     join (S '', '') (ALLOWED_EXTENSIONS st))"
proof -
  have "file_extension x fname \<notin> set (ALLOWED_EXTENSIONS st)"
    using assms(1,2) by (rule no_dot_rejected)
  then have "validate_image x st image_bytes fname = (False, invalid_type_message st)"
    using assms(3) by (simp add: validate_image_def)
  then show ?thesis
    using no_dot_extension[OF assms(1)] by (simp add: invalid_type_message_def)
qed

theorem no_dot_filename_rejected_witness:
  "46 \<notin> set (S ''photo'')
   \<and> file_extension stub_ext (S ''photo'') = S ''o''
   \<and> validate_image stub_ext default_settings [1] (S ''photo'') =
       (False, S ''Invalid file type. Allowed types: .jpg, .jpeg, .png'')"
proof -
  have a: "46 \<notin> set (S ''photo'')" by (simp add: S_def)
  have b: "int (length [1::8 word]) \<le> MAX_FILE_SIZE_BYTES default_settings"
    by (simp add: default_fields)
  have c: "join (S '', '') (ALLOWED_EXTENSIONS default_settings) = S ''.jpg, .jpeg, .png''"
    by (simp add: default_fields(4) S_def)
  have d: "S ''Invalid file type. Allowed types: '' @ S ''.jpg, .jpeg, .png'' =
           S ''Invalid file type. Allowed types: .jpg, .jpeg, .png''"
    by (simp add: S_def)
  from no_dot_filename_rejected[OF a default_fields(5) b, of stub_ext] a show ?thesis
    by (simp only: stub_extensions c d) simp
qed

text \<open>
  The statement of C4 that the extension of a dotless name is the empty string fails: for
  the file name "photo" the extension computed is "o".
\<close>

theorem no_dot_extension_not_empty:
  "46 \<notin> set (S ''photo'') \<and> file_extension stub_ext (S ''photo'') \<noteq> []"
proof -
  have "46 \<notin> set (S ''photo'')" by (simp add: S_def)
  moreover have "S ''o'' \<noteq> []" by (simp add: S_def)
  ultimately show ?thesis by (simp only: stub_extensions) simp
qed

text \<open>
  Claim C3, at the file name U+0130 followed by ".png".  The part of the name from its
  last dot on is ".png", which lower-cases to itself and is an allowed extension; yet the
  upload, within the size limit, is rejected with the extension reason.  \<open>rfind\<close> finds the
  dot at index 1 of the name as given, while in the lower-cased name (U+0069, U+0307,
  ".png") index 1 is U+0307, so that the extension compared is U+0307 followed by ".png".
\<close>

theorem dotted_capital_I_png_rejected:
  "rfind (304 # S ''.png'') 46 = 1
   \<and> py_lower (slice_from (304 # S ''.png'') 1) = S ''.png''
   \<and> S ''.png'' \<in> set (ALLOWED_EXTENSIONS default_settings)
   \<and> int (length [1::8 word]) \<le> MAX_FILE_SIZE_BYTES default_settings
   \<and> file_extension stub_ext (304 # S ''.png'') = 775 # S ''.png''
   \<and> validate_image stub_ext default_settings [1] (304 # S ''.png'') =
       (False, S ''Invalid file type. Allowed types: .jpg, .jpeg, .png'')"
proof -
  have "validate_image stub_ext default_settings [1] (304 # S ''.png'') =
       (False, invalid_type_message default_settings)"
    using stub_extension_checks(4) by (simp add: validate_image_def default_fields(2))
  moreover have "rfind (304 # S ''.png'') 46 = 1" by (simp add: rfind_def S_def)
  moreover have "py_lower (slice_from (304 # S ''.png'') 1) = S ''.png''"
    by (simp add: slice_from_def py_lower_def lower_cp_def S_def)
  moreover have "S ''.png'' \<in> set (ALLOWED_EXTENSIONS default_settings)"
    by (simp add: default_fields(4))
  ultimately show ?thesis
    by (simp add: default_invalid_type_message stub_extensions default_fields(2))
qed

section \<open>The normaliser\<close>

text \<open>
  Claim C6.  A bitmap whose width is at most \<open>MAX_IMAGE_WIDTH\<close> passes through step 2
  unchanged: the same bitmap, so the same width and height.
\<close>

theorem normalize_within_bound_unchanged:
  assumes "width input_image \<le> MAX_IMAGE_WIDTH st"
  shows "normalize x st input_image = Inr input_image"
  using assms by (simp add: normalize_def)

theorem normalize_within_bound_unchanged_witness:
  "width \<lparr>width = 800, height = 600, pixels = []\<rparr> \<le> MAX_IMAGE_WIDTH default_settings
   \<and> normalize stub_ext default_settings \<lparr>width = 800, height = 600, pixels = []\<rparr> =
       Inr \<lparr>width = 800, height = 600, pixels = []\<rparr>"
proof -
  have a: "width \<lparr>width = 800, height = 600, pixels = []\<rparr> \<le> MAX_IMAGE_WIDTH default_settings"
    by (simp add: default_fields)
  from normalize_within_bound_unchanged[OF a, of stub_ext] a show ?thesis by simp
qed

text \<open>
  Claim C5.  A bitmap wider than a positive \<open>MAX_IMAGE_WIDTH\<close>, of a height \<open>h\<close> with
  \<open>h * MAX_IMAGE_WIDTH < 2 ^ 51\<close>, is resized to \<open>(MAX_IMAGE_WIDTH, new_height)\<close>, where
  \<open>new_height = int(h * ratio)\<close> with the float \<open>ratio = MAX_IMAGE_WIDTH / width\<close>.  This
  \<open>new_height\<close> is the floor of \<open>h * MAX_IMAGE_WIDTH / width\<close>, or one less than it, and one
  less only when the width divides \<open>h * MAX_IMAGE_WIDTH\<close>.  When \<open>resize\<close> returns a bitmap
  of the size it was asked for, the bitmap step 2 yields is \<open>MAX_IMAGE_WIDTH\<close> wide and
  \<open>new_height\<close> high.
\<close>

theorem normalize_wide_bitmap:
  assumes wide: "MAX_IMAGE_WIDTH st < width img"
    and M: "0 < MAX_IMAGE_WIDTH st"
    and h: "0 \<le> height img"
    and small: "height img * MAX_IMAGE_WIDTH st < 2 ^ 51"
    and resize: "\<And>sz out. Image_resize x img sz = Inr out \<Longrightarrow>
                   width out = fst sz \<and> height out = snd sz"
  shows "\<exists>nh. new_height st img = Inr nh
           \<and> normalize x st img = Image_resize x img (MAX_IMAGE_WIDTH st, nh)
           \<and> (nh = height img * MAX_IMAGE_WIDTH st div width img
              \<or> width img dvd height img * MAX_IMAGE_WIDTH st
                \<and> nh = height img * MAX_IMAGE_WIDTH st div width img - 1)
           \<and> (\<forall>out. normalize x st img = Inr out \<longrightarrow>
                 width out = MAX_IMAGE_WIDTH st \<and> height out = nh)"
proof -
  have w: "0 < width img" using wide M by linarith
  have "\<exists>nh. new_height st img = Inr nh
           \<and> (nh = height img * MAX_IMAGE_WIDTH st div width img
              \<or> width img dvd height img * MAX_IMAGE_WIDTH st
                \<and> nh = height img * MAX_IMAGE_WIDTH st div width img - 1)"
  proof (cases "height img = 0")
    case True
    then show ?thesis using new_height_flat[OF M w True] by simp
  next
    case False
    then have "0 < height img" using h by linarith
    from new_height_value[OF M w this small] show ?thesis by blast
  qed
  then obtain nh where nh: "new_height st img = Inr nh"
    and v: "nh = height img * MAX_IMAGE_WIDTH st div width img
              \<or> width img dvd height img * MAX_IMAGE_WIDTH st
                \<and> nh = height img * MAX_IMAGE_WIDTH st div width img - 1"
    by blast
  have n: "normalize x st img = Image_resize x img (MAX_IMAGE_WIDTH st, nh)"
    using wide by (simp add: normalize_def nh)
  have "\<forall>out. normalize x st img = Inr out \<longrightarrow>
          width out = MAX_IMAGE_WIDTH st \<and> height out = nh"
    using resize[of "(MAX_IMAGE_WIDTH st, nh)"] by (simp add: n)
  with nh v n show ?thesis by blast
qed

theorem normalize_wide_bitmap_witness:
  "MAX_IMAGE_WIDTH default_settings < width \<lparr>width = 2000, height = 1000, pixels = []\<rparr>
   \<and> 0 < MAX_IMAGE_WIDTH default_settings
   \<and> 0 \<le> height \<lparr>width = 2000, height = 1000, pixels = []\<rparr>
   \<and> height \<lparr>width = 2000, height = 1000, pixels = []\<rparr> * MAX_IMAGE_WIDTH default_settings
       < 2 ^ 51
   \<and> (\<forall>sz. Image_resize stub_ext \<lparr>width = 2000, height = 1000, pixels = []\<rparr> sz =
          Inr \<lparr>width = fst sz, height = snd sz, pixels = []\<rparr>)
   \<and> (\<exists>nh. new_height default_settings \<lparr>width = 2000, height = 1000, pixels = []\<rparr> = Inr nh
        \<and> normalize stub_ext default_settings \<lparr>width = 2000, height = 1000, pixels = []\<rparr> =
            Inr \<lparr>width = 1024, height = nh, pixels = []\<rparr>
        \<and> (nh = 1000 * 1024 div 2000 \<or> 2000 dvd (1000 * 1024 :: int) \<and> nh = 1000 * 1024 div 2000 - 1)
        \<and> (\<forall>out. normalize stub_ext default_settings
                    \<lparr>width = 2000, height = 1000, pixels = []\<rparr> = Inr out \<longrightarrow>
               width out = 1024 \<and> height out = nh))"
proof -
  let ?I = "\<lparr>width = 2000, height = 1000, pixels = []\<rparr>"
  have a: "MAX_IMAGE_WIDTH default_settings < width ?I" by (simp add: default_fields(3))
  have b: "0 < MAX_IMAGE_WIDTH default_settings" by (simp add: default_fields(3))
  have c: "0 \<le> height ?I" by simp
  have d: "height ?I * MAX_IMAGE_WIDTH default_settings < 2 ^ 51"
    by (simp add: default_fields(3))
  have e: "\<And>sz out. Image_resize stub_ext ?I sz = Inr out \<Longrightarrow>
             width out = fst sz \<and> height out = snd sz"
    by (auto simp: stub_fields(5))
  have f: "\<forall>sz. Image_resize stub_ext ?I sz = Inr \<lparr>width = fst sz, height = snd sz, pixels = []\<rparr>"
    by (simp add: stub_fields(5))
  from normalize_wide_bitmap[of default_settings ?I stub_ext, OF a b c d e]
  have "\<exists>nh. new_height default_settings ?I = Inr nh
        \<and> normalize stub_ext default_settings ?I = Inr \<lparr>width = 1024, height = nh, pixels = []\<rparr>
        \<and> (nh = 1000 * 1024 div 2000 \<or> 2000 dvd (1000 * 1024 :: int) \<and> nh = 1000 * 1024 div 2000 - 1)
        \<and> (\<forall>out. normalize stub_ext default_settings ?I = Inr out \<longrightarrow>
               width out = 1024 \<and> height out = nh)"
    by (simp add: default_fields(3) stub_fields(5))
  with a b c d f show ?thesis by blast
qed

text \<open>
  The height is not always the floor of \<open>h * MAX_IMAGE_WIDTH / width\<close>.  With the default
  limit 1024, a bitmap of 1122 x 561 has \<open>561 * 1024 / 1122 = 512\<close> exactly; the float
  \<open>1024 / 1122\<close> is rounded down, the product \<open>561 * ratio\<close> rounds to the float just below
  512, and \<open>int\<close> truncates it to 511.
\<close>

theorem normalize_height_one_below_floor:
  "normalize stub_ext default_settings \<lparr>width = 1122, height = 561, pixels = []\<rparr> =
     Inr \<lparr>width = 1024, height = 511, pixels = []\<rparr>
   \<and> MAX_IMAGE_WIDTH default_settings < width \<lparr>width = 1122, height = 561, pixels = []\<rparr>
   \<and> height \<lparr>width = 1122, height = 561, pixels = []\<rparr> * MAX_IMAGE_WIDTH default_settings
       div width \<lparr>width = 1122, height = 561, pixels = []\<rparr> = 512"
  by (simp add: normalize_def default_fields(3) new_height_1122_561 stub_fields(5))

section \<open>The upload route\<close>

lemma remove_background_fails_iff:
  "remove_background x st b = Inl d \<longleftrightarrow>
     Image_open x b = Inl d \<or>
     (\<exists>img. Image_open x b = Inr img \<and> normalize x st img = Inl d) \<or>
     (\<exists>img r. Image_open x b = Inr img \<and> normalize x st img = Inr r \<and>
               rembg_remove x r = Inl d) \<or>
     (\<exists>img r out. Image_open x b = Inr img \<and> normalize x st img = Inr r \<and>
               rembg_remove x r = Inr out \<and> Image_save_PNG x out = Inl d)"
  by (auto simp: remove_background_def split: sum.splits)

text \<open>
  What an upload rejected by the validator gets does not depend on the resizing,
  segmentation and encoding collaborators.
\<close>

lemma rejected_upload_ignores_pipeline:
  assumes "\<not> fst (validate_image x st (content file) (filename file))"
    and "str_lower x' = str_lower x" and "Image_open x' = Image_open x"
    and "Image_verify x' = Image_verify x"
  shows "remove_background_route x' st file = remove_background_route x st file"
proof -
  have "validate_image x' st (content file) (filename file) =
        validate_image x st (content file) (filename file)"
    using assms(2-4) by (simp add: validate_image_def file_extension_def cong: sum.case_cong)
  then show ?thesis
    using assms(1)
    by (cases "validate_image x st (content file) (filename file)")
       (simp add: remove_background_route_def Let_def)
qed

text \<open>
  Claim C1.  When \<open>validate_image\<close> returns invalid with a reason, the handler raises
  \<open>HTTPException\<close> with status 400 and that reason as detail, and \<open>validate_image\<close> is the
  only service method it has called: \<open>remove_background\<close> is not invoked.
\<close>

theorem invalid_upload_never_processed:
  assumes "validate_image x st (content file) (filename file) = (False, reason)"
  shows "remove_background_route x st file = ([Call_validate_image], HTTPException 400 reason)
         \<and> Call_remove_background \<notin> set (fst (remove_background_route x st file))"
  using assms by (simp add: remove_background_route_def)

theorem invalid_upload_never_processed_witness:
  "validate_image stub_ext default_settings
      (content \<lparr>content = [1], filename = S ''photo.gif''\<rparr>)
      (filename \<lparr>content = [1], filename = S ''photo.gif''\<rparr>)
     = (False, S ''Invalid file type. Allowed types: .jpg, .jpeg, .png'')
   \<and> remove_background_route stub_ext default_settings
        \<lparr>content = [1], filename = S ''photo.gif''\<rparr>
     = ([Call_validate_image],
        HTTPException 400 (S ''Invalid file type. Allowed types: .jpg, .jpeg, .png''))"
proof -
  from stub_extension_checks(2) have v: "validate_image stub_ext default_settings
      (content \<lparr>content = [1], filename = S ''photo.gif''\<rparr>)
      (filename \<lparr>content = [1], filename = S ''photo.gif''\<rparr>)
     = (False, S ''Invalid file type. Allowed types: .jpg, .jpeg, .png'')"
    by (simp add: validate_image_def default_fields(2) default_invalid_type_message)
  from invalid_upload_never_processed[OF v] v show ?thesis by simp
qed

text \<open>
  Claim C8.  When the upload passes validation and \<open>remove_background\<close> raises, at whichever
  of its stages (\<open>remove_background_fails_iff\<close> lists them), the handler raises
  \<open>HTTPException\<close> with status 500 and the detail "Error processing image: " followed by
  the description of what was raised; the outcome is that exception and no response body.
\<close>

theorem processing_failure_gives_500:
  assumes "fst (validate_image x st (content file) (filename file))"
    and "remove_background x st (content file) = Inl description"
  shows "remove_background_route x st file =
           ([Call_validate_image, Call_remove_background],
            HTTPException 500 (S ''Error processing image: '' @ description))"
  using assms
  by (cases "validate_image x st (content file) (filename file)")
     (simp add: remove_background_route_def Let_def)

theorem processing_failure_gives_500_witness:
  "fst (validate_image failing_segmentation default_settings
          (content \<lparr>content = [1], filename = S ''photo.png''\<rparr>)
          (filename \<lparr>content = [1], filename = S ''photo.png''\<rparr>))
   \<and> remove_background failing_segmentation default_settings
        (content \<lparr>content = [1], filename = S ''photo.png''\<rparr>) = Inl (S ''model failed'')
   \<and> remove_background_route failing_segmentation default_settings
        \<lparr>content = [1], filename = S ''photo.png''\<rparr> =
       ([Call_validate_image, Call_remove_background],
        HTTPException 500 (S ''Error processing image: '' @ S ''model failed''))"
proof -
  have "file_extension failing_segmentation (S ''photo.png'') =
        file_extension stub_ext (S ''photo.png'')"
    by (simp add: file_extension_def failing_segmentation_fields stub_fields)
  then have v: "fst (validate_image failing_segmentation default_settings
          (content \<lparr>content = [1], filename = S ''photo.png''\<rparr>)
          (filename \<lparr>content = [1], filename = S ''photo.png''\<rparr>))"
    using stub_extension_checks(1)
    by (simp add: validate_image_def default_fields(2) failing_segmentation_fields)
  have r: "remove_background failing_segmentation default_settings
        (content \<lparr>content = [1], filename = S ''photo.png''\<rparr>) = Inl (S ''model failed'')"
    by (simp add: remove_background_def normalize_def new_height_2000_1000
        default_fields(3) failing_segmentation_fields)
  from processing_failure_gives_500[OF v r] v r show ?thesis by simp
qed

text \<open>
  After a validated upload whose \<open>remove_background\<close> returned PNG bytes, the outcome is
  decided by the encoding of the Content-Disposition value.  The file name contains a
  dot, and with the stem that precedes its last dot: a stem of code points below 256
  gives status 200 with the PNG bytes as body, media type image/png, and the headers
  \<open>content-disposition\<close>, "attachment; filename=no\_bg\_" + stem + ".png", and
  \<open>content-type\<close>, "image/png"; any other stem gives \<open>HTTPException\<close> 500 with the detail
  "Error processing image: " followed by the description of the encoding error.
\<close>

lemma route_after_pipeline:
  assumes "fst (validate_image x st (content file) (filename file))"
    and "remove_background x st (content file) = Inr png"
  shows "remove_background_route x st file =
           ([Call_validate_image, Call_remove_background],
            case encode_latin1 (content_disposition (filename file)) of
              Inl e \<Rightarrow> HTTPException 500 (S ''Error processing image: '' @ e)
            | Inr vb \<Rightarrow>
                Returned (Response 200 png (S ''image/png'')
                  [(map of_nat (S ''content-disposition''), vb),
                   (map of_nat (S ''content-type''), map of_nat (S ''image/png''))]))"
  using assms
  by (cases "validate_image x st (content file) (filename file)";
      cases "encode_latin1 (content_disposition (filename file))")
     (simp_all add: remove_background_route_def Let_def streaming_png_response)

lemma content_disposition_latin1:
  "list_all (\<lambda>c. c < 256) (S ''attachment; filename=no_bg_'' @ stem @ S ''.png'') \<longleftrightarrow>
     list_all (\<lambda>c. c < 256) stem"
  by (simp add: S_latin1)

lemma success_response_latin1:
  assumes "fst (validate_image x st (content file) (filename file))"
    and "remove_background x st (content file) = Inr png"
    and "set (ALLOWED_EXTENSIONS st) = allowed_extensions"
  shows "(\<exists>stem suffix. filename file = stem @ 46 # suffix \<and> 46 \<notin> set suffix)
         \<and> (\<forall>stem suffix. filename file = stem @ 46 # suffix \<and> 46 \<notin> set suffix \<longrightarrow>
              (list_all (\<lambda>c. c < 256) stem \<longrightarrow>
                 remove_background_route x st file =
                   ([Call_validate_image, Call_remove_background],
                    Returned (Response 200 png (S ''image/png'')
                      [(map of_nat (S ''content-disposition''),
                        map of_nat (S ''attachment; filename=no_bg_'' @ stem @ S ''.png'')),
                       (map of_nat (S ''content-type''), map of_nat (S ''image/png''))])))
              \<and> (\<not> list_all (\<lambda>c. c < 256) stem \<longrightarrow>
                   (\<exists>e. encode_latin1 (S ''attachment; filename=no_bg_'' @ stem @ S ''.png'')
                          = Inl e
                        \<and> remove_background_route x st file =
                            ([Call_validate_image, Call_remove_background],
                             HTTPException 500 (S ''Error processing image: '' @ e)))))"
proof (intro conjI allI impI)
  have "46 \<in> set (filename file)" using assms(1,3) by (rule valid_has_dot)
  then show "\<exists>stem suffix. filename file = stem @ 46 # suffix \<and> 46 \<notin> set suffix"
    using rfind_split[of 46 "filename file"] by blast
next
  fix stem suffix
  assume d: "filename file = stem @ 46 # suffix \<and> 46 \<notin> set suffix"
    and ok: "list_all (\<lambda>c. c < 256) stem"
  from d have "hd (rsplit_once (filename file) 46) = stem"
    using rsplit_once_stem[of "filename file" stem suffix] by simp
  then have cd: "content_disposition (filename file) =
      S ''attachment; filename=no_bg_'' @ stem @ S ''.png''"
    by (simp add: content_disposition_def)
  have "encode_latin1 (content_disposition (filename file)) =
        Inr (map of_nat (S ''attachment; filename=no_bg_'' @ stem @ S ''.png''))"
    unfolding cd using ok by (intro encode_latin1_ok) (simp only: content_disposition_latin1)
  then show "remove_background_route x st file =
                   ([Call_validate_image, Call_remove_background],
                    Returned (Response 200 png (S ''image/png'')
                      [(map of_nat (S ''content-disposition''),
                        map of_nat (S ''attachment; filename=no_bg_'' @ stem @ S ''.png'')),
                       (map of_nat (S ''content-type''), map of_nat (S ''image/png''))]))"
    using route_after_pipeline[OF assms(1,2)] by simp
next
  fix stem suffix
  assume d: "filename file = stem @ 46 # suffix \<and> 46 \<notin> set suffix"
    and bad: "\<not> list_all (\<lambda>c. c < 256) stem"
  from d have "hd (rsplit_once (filename file) 46) = stem"
    using rsplit_once_stem[of "filename file" stem suffix] by simp
  then have cd: "content_disposition (filename file) =
      S ''attachment; filename=no_bg_'' @ stem @ S ''.png''"
    by (simp add: content_disposition_def)
  have "\<not> list_all (\<lambda>c. c < 256) (S ''attachment; filename=no_bg_'' @ stem @ S ''.png'')"
    using bad content_disposition_latin1[of stem] by blast
  then obtain e where e: "encode_latin1 (S ''attachment; filename=no_bg_'' @ stem @ S ''.png'')
     = Inl e"
    using encode_latin1_raises by blast
  then have "remove_background_route x st file =
                            ([Call_validate_image, Call_remove_background],
                             HTTPException 500 (S ''Error processing image: '' @ e))"
    using route_after_pipeline[OF assms(1,2)] by (simp add: cd)
  with e show "\<exists>e. encode_latin1 (S ''attachment; filename=no_bg_'' @ stem @ S ''.png'')
                          = Inl e
                        \<and> remove_background_route x st file =
                            ([Call_validate_image, Call_remove_background],
                             HTTPException 500 (S ''Error processing image: '' @ e))"
    by blast
qed

text \<open>
  Claim C9, at the file name "\<^verbatim>\<open>U+0444 U+043E U+0442 U+043E\<close>.png" (four Cyrillic
  letters as stem).  The upload passes validation and \<open>remove_background\<close> returns its PNG
  bytes, so the pipeline completes; the stem is the four letters.  The constructor of
  the response then fails to encode the Content-Disposition value as latin-1, inside the
  handler's \<open>try\<close> block, and the handler raises \<open>HTTPException\<close> with status 500 instead of
  returning the status 200 response.
\<close>

theorem cyrillic_filename_gives_500:
  "fst (validate_image stub_ext default_settings [1] ([1092, 1086, 1090, 1086] @ S ''.png''))
   \<and> remove_background stub_ext default_settings [1] = Inr [1]
   \<and> hd (rsplit_once ([1092, 1086, 1090, 1086] @ S ''.png'') 46) = [1092, 1086, 1090, 1086]
   \<and> remove_background_route stub_ext default_settings
        \<lparr>content = [1], filename = [1092, 1086, 1090, 1086] @ S ''.png''\<rparr> =
       ([Call_validate_image, Call_remove_background],
        HTTPException 500
          (S ''Error processing image: '' @ [39] @ S ''latin-1'' @ [39] @
           S '' codec can't encode characters in position 27-30: ordinal not in range(256)''))"
proof -
  let ?f = "\<lparr>content = [1], filename = [1092, 1086, 1090, 1086] @ S ''.png''\<rparr>"
  have v: "fst (validate_image stub_ext default_settings (content ?f) (filename ?f))"
    using cyrillic_extension(2)
    by (simp add: validate_image_def default_fields(2) stub_fields)
  have r: "remove_background stub_ext default_settings (content ?f) = Inr [1]"
    by (simp add: remove_background_def normalize_def new_height_2000_1000
        default_fields(3) stub_fields)
  have h: "hd (rsplit_once ([1092, 1086, 1090, 1086] @ S ''.png'') 46) = [1092, 1086, 1090, 1086]"
    by (rule rsplit_once_stem[of _ _ "S ''png''"]) (simp_all add: S_def)
  have cd: "content_disposition (filename ?f) =
     S ''attachment; filename=no_bg_'' @ [1092, 1086, 1090, 1086] @ S ''.png''"
    by (simp only: content_disposition_def h upload.simps)
  have "remove_background_route stub_ext default_settings ?f =
       ([Call_validate_image, Call_remove_background],
        HTTPException 500
          (S ''Error processing image: '' @ [39] @ S ''latin-1'' @ [39] @
           S '' codec can't encode characters in position 27-30: ordinal not in range(256)''))"
    unfolding route_after_pipeline[OF v r] cd cyrillic_header_error by simp
  with v r h show ?thesis by simp
qed

section \<open>The informational routes\<close>

text \<open>
  Claim C10.  The health payload is a constant: its status is "healthy" and its version
  is the literal "1.0.0", whatever the settings are, while the root payload reports
  \<open>API_VERSION\<close>; with \<open>API_VERSION\<close> set to "2.0.0" the two version fields differ.
\<close>

theorem health_version_fixed:
  "dict_get health_check (S ''status'') = Some (JStr (S ''healthy''))
   \<and> dict_get health_check (S ''version'') = Some (JStr (S ''1.0.0''))
   \<and> dict_get (root st) (S ''version'') = Some (JStr (API_VERSION st))
   \<and> dict_get (root (default_settings\<lparr>API_VERSION := S ''2.0.0''\<rparr>)) (S ''version'')
       \<noteq> dict_get health_check (S ''version'')"
  by (simp add: health_check_def root_def S_def)

end
